theory Spec2Isabelle
  imports Complex_Main
begin

section \<open>Rectangles\<close>

text \<open>
  The game (\<^verbatim>\<open>src/main.py\<close>) keeps every position in a pygame \<^verbatim>\<open>Rect\<close>: four
  integers, the left and top edge and the size. The operations below are the ones the
  game calls, with the meaning pygame gives them. Image rectangles have a size that is
  not negative; there pygame's halving (a C shift or division) is \<open>div 2\<close>.

  pygame keeps the four integers in C \<^verbatim>\<open>int\<close>s and adds them there. The integers of the
  model are unbounded: the operations below are those of pygame for rectangles on
  which no sum leaves the range of a C \<^verbatim>\<open>int\<close>, which \<open>c_int\<close> describes. The rectangles
  of a session stay near the play-field, far inside that range.
\<close>

datatype rect = Rect (left: int) (top_edge: int) (width: int) (height: int)

definition c_int :: "int \<Rightarrow> bool" where
  "c_int v = (- 2147483648 \<le> v \<and> v \<le> 2147483647)"

definition right :: "rect \<Rightarrow> int" where
  "right r = left r + width r"

definition bottom :: "rect \<Rightarrow> int" where
  "bottom r = top_edge r + height r"

definition centerx :: "rect \<Rightarrow> int" where
  "centerx r = left r + width r div 2"

definition centery :: "rect \<Rightarrow> int" where
  "centery r = top_edge r + height r div 2"

definition center :: "rect \<Rightarrow> int \<times> int" where
  "center r = (centerx r, centery r)"

definition midbottom :: "rect \<Rightarrow> int \<times> int" where
  "midbottom r = (centerx r, bottom r)"

text \<open>\<^verbatim>\<open>rect.move(dx, dy)\<close> and \<^verbatim>\<open>rect.move_ip(dx, dy)\<close>: the same translation, the
  second one in place.\<close>

definition move :: "rect \<Rightarrow> int \<Rightarrow> int \<Rightarrow> rect" where
  "move r dx dy = Rect (left r + dx) (top_edge r + dy) (width r) (height r)"

definition set_top :: "rect \<Rightarrow> int \<Rightarrow> rect" where
  "set_top r v = Rect (left r) v (width r) (height r)"

text \<open>\<^verbatim>\<open>rect.clamp(other)\<close>: a rectangle of the same size moved inside \<open>other\<close>; one
  that is too large for \<open>other\<close> is centred on it.\<close>

definition clamp1 :: "int \<Rightarrow> int \<Rightarrow> int \<Rightarrow> int \<Rightarrow> int" where
  "clamp1 p s op os =
     (if s \<ge> os then op + os div 2 - s div 2
      else if p < op then op
      else if p + s > op + os then op + os - s
      else p)"

definition clamp :: "rect \<Rightarrow> rect \<Rightarrow> rect" where
  "clamp r other =
     Rect (clamp1 (left r) (width r) (left other) (width other))
          (clamp1 (top_edge r) (height r) (top_edge other) (height other))
          (width r) (height r)"

text \<open>\<^verbatim>\<open>a.colliderect(b)\<close>: the two rectangles share area; an empty rectangle
  collides with nothing.\<close>

definition colliderect :: "rect \<Rightarrow> rect \<Rightarrow> bool" where
  "colliderect a b =
     (if width a = 0 \<or> height a = 0 \<or> width b = 0 \<or> height b = 0 then False
      else min (left a) (right a) < max (left b) (right b)
         \<and> min (top_edge a) (bottom a) < max (top_edge b) (bottom b)
         \<and> max (left a) (right a) > min (left b) (right b)
         \<and> max (top_edge a) (bottom a) > min (top_edge b) (bottom b))"

text \<open>The truth value of a \<^verbatim>\<open>Rect\<close>: it has a width and a height.\<close>

definition rect_bool :: "rect \<Rightarrow> bool" where
  "rect_bool r = (width r \<noteq> 0 \<and> height r \<noteq> 0)"

text \<open>\<^verbatim>\<open>a.union(b)\<close>: the smallest rectangle around both.\<close>

definition union_rect :: "rect \<Rightarrow> rect \<Rightarrow> rect" where
  "union_rect a b =
     (let x = min (left a) (left b); y = min (top_edge a) (top_edge b);
          w = max (right a) (right b) - x; h = max (bottom a) (bottom b) - y
      in Rect x y w h)"

text \<open>\<^verbatim>\<open>image.get_rect(attr=pos)\<close>: the rectangle of an image of the given size, placed
  by one of its anchor points.\<close>

definition get_rect_topleft :: "int \<times> int \<Rightarrow> int \<times> int \<Rightarrow> rect" where
  "get_rect_topleft sz pos = Rect (fst pos) (snd pos) (fst sz) (snd sz)"

definition get_rect_midbottom :: "int \<times> int \<Rightarrow> int \<times> int \<Rightarrow> rect" where
  "get_rect_midbottom sz pos =
     Rect (fst pos - fst sz div 2) (snd pos - snd sz) (fst sz) (snd sz)"

definition get_rect_center :: "int \<times> int \<Rightarrow> int \<times> int \<Rightarrow> rect" where
  "get_rect_center sz pos =
     Rect (fst pos - fst sz div 2) (snd pos - snd sz div 2) (fst sz) (snd sz)"

section \<open>Game constants\<close>

definition MAX_SHOTS :: nat where "MAX_SHOTS = 2"
definition ENEMY_ODDS :: int where "ENEMY_ODDS = 22"
definition BULLET_ODDS :: int where "BULLET_ODDS = 60"
definition ENEMY_RELOAD :: int where "ENEMY_RELOAD = 12"
definition SCREENRECT :: rect where "SCREENRECT = Rect 0 0 640 480"

text \<open>Python's \<^verbatim>\<open>int(x)\<close> on a float cuts the fraction off, towards zero. The samples
  of \<^verbatim>\<open>random.random()\<close> are modelled as reals, the product with the odds as exact.\<close>

definition py_int :: "real \<Rightarrow> int" where
  "py_int v = (if v \<ge> 0 then \<lfloor>v\<rfloor> else \<lceil>v\<rceil>)"

section \<open>Sprites\<close>

text \<open>
  One constructor for each sprite class, with the attributes its methods read and
  write. \<open>image_idx\<close> is the position of the current image in the class's \<^verbatim>\<open>images\<close>
  list (a Python index, an integer); the image of the score is the text rendered from
  \<open>lastscore\<close>.
\<close>

datatype sprite =
    is_Player: Player (rect: rect) (image_idx: int) (reloading: bool) (origtop: int)
      (facing: int) (frame: int)
  | is_Enemy: Enemy (rect: rect) (image_idx: int) (facing: int) (frame: int)
  | is_Explosion: Explosion (rect: rect) (image_idx: int) (life: int)
  | is_Shot: Shot (rect: rect) (image_idx: int)
  | is_EnemyBullet: EnemyBullet (rect: rect) (image_idx: int)
  | is_Score: Score (rect: rect) (lastscore: int)

text \<open>\<^verbatim>\<open>sprite.image\<close>, the surface that is drawn: an image of the sprite's class, or the
  text rendered from the score.\<close>

datatype surface =
    PlayerImage int | EnemyImage int | ExplosionImage int | ShotImage int
  | EnemyBulletImage int | ScoreText int

fun image_of :: "sprite \<Rightarrow> surface" where
  "image_of (Player r i rl ot fc fr) = PlayerImage i"
| "image_of (Enemy r i fc fr) = EnemyImage i"
| "image_of (Explosion r i lf) = ExplosionImage i"
| "image_of (Shot r i) = ShotImage i"
| "image_of (EnemyBullet r i) = EnemyBulletImage i"
| "image_of (Score r ls) = ScoreText ls"

text \<open>
  What the program takes from outside its text is a parameter of the model:
  \<^item> the sizes of the images, which come from files, and whether the font module is there;
  \<^item> \<open>blit\<close>, the screen's \<^verbatim>\<open>screen.blit(sprite.image, sprite.rect)\<close>, which returns the
    rectangle of the screen it painted: pygame computes it from the image, the
    rectangle and the screen's clipping area;
  \<^item> \<open>float_coord\<close>, the integer pygame stores when a rectangle is given a float
    coordinate, as \<^verbatim>\<open>Enemy.__init__\<close> does (line 128): recent versions of pygame round
    to the nearest integer, older ones cut the fraction off.
  The lengths of the \<^verbatim>\<open>images\<close> lists are those \<^verbatim>\<open>load_images\<close> builds.
\<close>

record assets =
  player_size :: "int \<times> int"
  enemy_size :: "int \<times> int"
  explosion_size :: "int \<times> int"
  shot_size :: "int \<times> int"
  enemy_bullet_size :: "int \<times> int"
  score_size :: "int \<times> int"
  has_font :: bool
  blit :: "surface \<Rightarrow> rect \<Rightarrow> rect"
  float_coord :: "real \<Rightarrow> int"

definition blit_sprite :: "assets \<Rightarrow> sprite \<Rightarrow> rect" where
  "blit_sprite A s = blit A (image_of s) (rect s)"

definition Player_images_len :: int where "Player_images_len = 3"
definition Enemy_images_len :: int where "Enemy_images_len = 1"

definition Player_speed :: int where "Player_speed = 10"
definition Player_bounce :: int where "Player_bounce = 24"
definition Player_gun_offset :: int where "Player_gun_offset = -11"
definition Player_animcycle :: int where "Player_animcycle = 12"
definition Enemy_speed :: int where "Enemy_speed = 5"
definition Enemy_animcycle :: int where "Enemy_animcycle = 12"
definition Explosion_defaultlife :: int where "Explosion_defaultlife = 12"
definition Explosion_animcycle :: int where "Explosion_animcycle = 3"
definition Shot_speed :: int where "Shot_speed = -11"
definition EnemyBullet_speed :: int where "EnemyBullet_speed = 9"

subsection \<open>Player\<close>

definition Player_init :: "assets \<Rightarrow> sprite" where
  "Player_init A =
     (let r = get_rect_midbottom (player_size A) (midbottom SCREENRECT)
      in Player r 0 False (top_edge r) (-1) 0)"

fun Player_move :: "int \<Rightarrow> sprite \<Rightarrow> sprite" where
  "Player_move direction (Player r i rl ot fc fr) =
     (let fc' = (if direction \<noteq> 0 then direction else fc);
          r1 = move r (direction * Player_speed) 0;
          r2 = clamp r1 SCREENRECT;
          i' = (if direction < 0 then 0 else if direction > 0 then 1 else i);
          r3 = set_top r2 (ot - (left r2 div Player_bounce mod 2))
      in Player r3 i' rl ot fc' fr)"
| "Player_move direction s = s"

fun gunpos :: "sprite \<Rightarrow> int \<times> int" where
  "gunpos s = (facing s * Player_gun_offset + centerx (rect s), top_edge (rect s))"

fun set_reloading :: "bool \<Rightarrow> sprite \<Rightarrow> sprite" where
  "set_reloading v (Player r i rl ot fc fr) = Player r i v ot fc fr"
| "set_reloading v s = s"

subsection \<open>The other classes\<close>

text \<open>\<^verbatim>\<open>Enemy.__init__\<close> places the enemy above the screen at a random column: \<open>u\<close> is
  the sample of \<^verbatim>\<open>random.random()\<close> it draws, and the column is the float \<open>u * 640\<close> as
  the rectangle stores it.\<close>

definition Enemy_init :: "assets \<Rightarrow> real \<Rightarrow> sprite" where
  "Enemy_init A u =
     Enemy (get_rect_topleft (enemy_size A)
              (float_coord A (u * real_of_int (width SCREENRECT)), - snd (enemy_size A)))
       0 Enemy_speed 0"

definition Explosion_init :: "assets \<Rightarrow> sprite \<Rightarrow> sprite" where
  "Explosion_init A actor =
     Explosion (get_rect_center (explosion_size A) (center (rect actor))) 0
       Explosion_defaultlife"

definition Shot_init :: "assets \<Rightarrow> int \<times> int \<Rightarrow> sprite" where
  "Shot_init A pos = Shot (get_rect_midbottom (shot_size A) pos) 0"

definition EnemyBullet_init :: "assets \<Rightarrow> sprite \<Rightarrow> sprite" where
  "EnemyBullet_init A enemy =
     EnemyBullet (get_rect_midbottom (enemy_bullet_size A)
                    (midbottom (move (rect enemy) 0 5))) 0"

text \<open>\<^verbatim>\<open>Score.__init__\<close> sets \<open>lastscore\<close> to \<open>-1\<close>, calls \<open>update\<close>, which reads the
  global \<^verbatim>\<open>SCORE\<close>, and places the rendered text at \<open>(10, 450)\<close>.\<close>

definition Score_init :: "assets \<Rightarrow> int \<Rightarrow> sprite" where
  "Score_init A sc =
     Score (move (get_rect_topleft (score_size A) (0, 0)) 10 450)
       (if sc \<noteq> -1 then sc else -1)"

text \<open>
  The \<^verbatim>\<open>update\<close> method of each class. It returns the sprite with its attributes
  updated, and whether the method called \<^verbatim>\<open>self.kill()\<close>: \<open>kill\<close> changes the groups,
  not the sprite. \<open>sc\<close> is the global \<^verbatim>\<open>SCORE\<close>, which \<^verbatim>\<open>Score.update\<close> reads.
\<close>

fun update :: "assets \<Rightarrow> int \<Rightarrow> sprite \<Rightarrow> sprite \<times> bool" where
  "update A sc (Player r i rl ot fc fr) =
     (let fr' = fr + 1
      in (Player r (fr' div Player_animcycle mod Player_images_len) rl ot fc fr', False))"
| "update A sc (Enemy r i fc fr) =
     (let r' = move r 0 fc;
          k = (top_edge r' \<ge> height SCREENRECT);
          fr' = fr + 1
      in (Enemy r' (fr' div Enemy_animcycle mod Enemy_images_len) fc fr', k))"
| "update A sc (Explosion r i lf) =
     (let lf' = lf - 1
      in (Explosion r (lf' div Explosion_animcycle mod 2) lf', lf' \<le> 0))"
| "update A sc (Shot r i) =
     (let r' = move r 0 Shot_speed
      in (Shot r' i, top_edge r' \<le> - snd (shot_size A)))"
| "update A sc (EnemyBullet r i) =
     (let r' = move r 0 EnemyBullet_speed
      in (EnemyBullet r' i, bottom r' \<ge> height SCREENRECT))"
| "update A sc (Score r ls) = (if sc \<noteq> ls then Score r sc else Score r ls, False)"

section \<open>Groups and the state of the game\<close>

text \<open>
  Sprites are objects shared between groups, so the state has a store from object
  identities to sprites, and each \<^verbatim>\<open>Group\<close> is the list of the identities of its
  members, in the order they were added (a pygame group is a dictionary keyed by its
  sprites). \<open>all\<close> is the \<^verbatim>\<open>RenderUpdates\<close> group: it maps each member to the rectangle
  it was last drawn at (\<open>None\<close> before its first draw) and keeps in \<open>lostsprites\<close> the
  rectangles of the members removed since the last draw. \<open>lastenemy\<close> is the
  \<^verbatim>\<open>GroupSingle\<close>: it holds at most one sprite. \<open>rng\<close> is the sequence of samples
  \<^verbatim>\<open>random.random()\<close> returns, \<open>rng_pos\<close> the number of samples drawn so far. \<open>dirty\<close>
  is the list last passed to \<^verbatim>\<open>pg.display.update\<close>.
\<close>

record game =
  cfg :: assets
  store :: "nat \<Rightarrow> sprite"
  next_id :: nat
  player :: nat
  enemies :: "nat list"
  shots :: "nat list"
  enemy_bullets :: "nat list"
  all :: "(nat \<times> rect option) list"
  lostsprites :: "rect list"
  lastenemy :: "nat option"
  SCORE :: int
  enemyreload :: int
  rng :: "nat \<Rightarrow> real"
  rng_pos :: nat
  dirty :: "rect list"

definition random :: "game \<Rightarrow> real \<times> game" where
  "random g = (rng g (rng_pos g), g\<lparr>rng_pos := rng_pos g + 1\<rparr>)"

text \<open>\<^verbatim>\<open>sprite.kill()\<close> removes the sprite from every group that holds it. Leaving
  \<open>all\<close> moves the rectangle it was last drawn at, when it is not empty, to
  \<open>lostsprites\<close>. The object itself stays as it is.\<close>

definition lost_rect :: "(nat \<times> rect option) list \<Rightarrow> nat \<Rightarrow> rect list" where
  "lost_rect spritedict sid =
     (case map_of spritedict sid of
        Some (Some r) \<Rightarrow> (if rect_bool r then [r] else [])
      | _ \<Rightarrow> [])"

definition kill :: "nat \<Rightarrow> game \<Rightarrow> game" where
  "kill sid g =
     g\<lparr>enemies := removeAll sid (enemies g),
       shots := removeAll sid (shots g),
       enemy_bullets := removeAll sid (enemy_bullets g),
       lostsprites := lostsprites g @ lost_rect (all g) sid,
       all := filter (\<lambda>e. fst e \<noteq> sid) (all g),
       lastenemy := (if lastenemy g = Some sid then None else lastenemy g)\<rparr>"

text \<open>\<^verbatim>\<open>sprite.alive()\<close>: the sprite belongs to some group.\<close>

definition alive :: "nat \<Rightarrow> game \<Rightarrow> bool" where
  "alive sid g =
     (sid \<in> set (enemies g) \<or> sid \<in> set (shots g) \<or> sid \<in> set (enemy_bullets g)
      \<or> sid \<in> fst ` set (all g) \<or> lastenemy g = Some sid)"

text \<open>Creating a sprite: a new object, added to the \<^verbatim>\<open>containers\<close> of its class.\<close>

definition new_object :: "sprite \<Rightarrow> game \<Rightarrow> game" where
  "new_object s g = g\<lparr>store := (store g)(next_id g := s), next_id := next_id g + 1\<rparr>"

definition add_all :: "nat \<Rightarrow> game \<Rightarrow> game" where
  "add_all sid g = g\<lparr>all := all g @ [(sid, None)]\<rparr>"

definition new_Player :: "game \<Rightarrow> game" where
  "new_Player g =
     (let sid = next_id g
      in (add_all sid (new_object (Player_init (cfg g)) g))\<lparr>player := sid\<rparr>)"

definition new_Enemy :: "game \<Rightarrow> game" where
  "new_Enemy g =
     (let sid = next_id g;
          (u, g1) = random g;
          g2 = add_all sid (new_object (Enemy_init (cfg g1) u) g1)
      in g2\<lparr>enemies := enemies g2 @ [sid], lastenemy := Some sid\<rparr>)"

definition new_Shot :: "int \<times> int \<Rightarrow> game \<Rightarrow> game" where
  "new_Shot pos g =
     (let sid = next_id g;
          g1 = add_all sid (new_object (Shot_init (cfg g) pos) g)
      in g1\<lparr>shots := shots g1 @ [sid]\<rparr>)"

definition new_EnemyBullet :: "nat \<Rightarrow> game \<Rightarrow> game" where
  "new_EnemyBullet enemy g =
     (let sid = next_id g;
          g1 = add_all sid (new_object (EnemyBullet_init (cfg g) (store g enemy)) g)
      in g1\<lparr>enemy_bullets := enemy_bullets g1 @ [sid]\<rparr>)"

definition new_Explosion :: "nat \<Rightarrow> game \<Rightarrow> game" where
  "new_Explosion actor g =
     add_all (next_id g) (new_object (Explosion_init (cfg g) (store g actor)) g)"

definition new_Score :: "game \<Rightarrow> game" where
  "new_Score g = add_all (next_id g) (new_object (Score_init (cfg g) (SCORE g)) g)"

section \<open>One tick of the main loop\<close>

text \<open>The state of the keyboard, and whether the event queue of the tick holds a
  \<^verbatim>\<open>QUIT\<close> or an escape key press.\<close>

record keys =
  K_RIGHT :: bool
  K_LEFT :: bool
  K_SPACE :: bool
  quit :: bool

text \<open>\<^verbatim>\<open>all.update()\<close> calls \<open>update\<close> on every member of a copy of the group's list.\<close>

definition update_sprite :: "nat \<Rightarrow> game \<Rightarrow> game" where
  "update_sprite sid g =
     (let (s, k) = update (cfg g) (SCORE g) (store g sid);
          g1 = g\<lparr>store := (store g)(sid := s)\<rparr>
      in if k then kill sid g1 else g1)"

definition update_all :: "game \<Rightarrow> game" where
  "update_all g = fold update_sprite (map fst (all g)) g"

text \<open>Lines 355 to 363: the player's input.\<close>

definition direction :: "keys \<Rightarrow> int" where
  "direction k = of_bool (K_RIGHT k) - of_bool (K_LEFT k)"

definition move_player :: "int \<Rightarrow> game \<Rightarrow> game" where
  "move_player d g = g\<lparr>store := (store g)(player g := Player_move d (store g (player g)))\<rparr>"

definition shoots :: "bool \<Rightarrow> game \<Rightarrow> bool" where
  "shoots firing g =
     (\<not> reloading (store g (player g)) \<and> firing \<and> length (shots g) < MAX_SHOTS)"

definition fire :: "bool \<Rightarrow> game \<Rightarrow> game" where
  "fire firing g =
     (let g1 = (if shoots firing g then new_Shot (gunpos (store g (player g))) g else g)
      in g1\<lparr>store := (store g1)(player g1 := set_reloading firing (store g1 (player g1)))\<rparr>)"

text \<open>Lines 365 to 370: a new enemy.\<close>

definition create_enemy :: "game \<Rightarrow> game" where
  "create_enemy g =
     (if enemyreload g \<noteq> 0 then g\<lparr>enemyreload := enemyreload g - 1\<rparr>
      else
        (let (u, g1) = random g
         in if py_int (u * real_of_int ENEMY_ODDS) = 0
            then (new_Enemy g1)\<lparr>enemyreload := ENEMY_RELOAD\<rparr>
            else g1))"

text \<open>Lines 372 to 374: the enemy's bullets. The \<^verbatim>\<open>and\<close> draws its sample only when
  \<open>lastenemy\<close> holds a sprite.\<close>

definition shoot_enemy_bullets :: "game \<Rightarrow> game" where
  "shoot_enemy_bullets g =
     (case lastenemy g of
        None \<Rightarrow> g
      | Some e \<Rightarrow>
          (let (u, g1) = random g
           in if py_int (u * real_of_int BULLET_ODDS) = 0 then new_EnemyBullet e g1 else g1))"

subsection \<open>Collisions\<close>

text \<open>
  \<^verbatim>\<open>pg.sprite.spritecollide(sprite, group, 1)\<close> goes through a copy of the group's list
  and tests each member against the rectangle of \<open>sprite\<close>; a member that collides is
  killed at once and joins the result. \<open>grp\<close> reads the group off the state.
\<close>

fun spritecollide_loop :: "rect \<Rightarrow> nat list \<Rightarrow> game \<Rightarrow> nat list \<times> game" where
  "spritecollide_loop r [] g = ([], g)"
| "spritecollide_loop r (s # ss) g =
     (if colliderect r (rect (store g s))
      then (let (crashed, g') = spritecollide_loop r ss (kill s g) in (s # crashed, g'))
      else spritecollide_loop r ss g)"

definition spritecollide :: "nat \<Rightarrow> (game \<Rightarrow> nat list) \<Rightarrow> game \<Rightarrow> nat list \<times> game" where
  "spritecollide sprite grp g = spritecollide_loop (rect (store g sprite)) (grp g) g"

text \<open>
  \<^verbatim>\<open>pg.sprite.groupcollide(groupa, groupb, 1, 1)\<close> goes through a copy of the list of
  \<open>groupa\<close> and calls \<open>spritecollide\<close> for each member, on \<open>groupb\<close> as it is by then; a
  member with a collision is killed and becomes a key of the result.
\<close>

fun groupcollide_loop ::
  "nat list \<Rightarrow> (game \<Rightarrow> nat list) \<Rightarrow> game \<Rightarrow> (nat \<times> nat list) list \<times> game" where
  "groupcollide_loop [] groupb g = ([], g)"
| "groupcollide_loop (a # as) groupb g =
     (let (collision, g1) = spritecollide a groupb g
      in if collision \<noteq> []
         then (let (crashed, g2) = groupcollide_loop as groupb (kill a g1)
               in ((a, collision) # crashed, g2))
         else groupcollide_loop as groupb g1)"

definition groupcollide ::
  "(game \<Rightarrow> nat list) \<Rightarrow> (game \<Rightarrow> nat list) \<Rightarrow> game \<Rightarrow> (nat \<times> nat list) list \<times> game" where
  "groupcollide groupa groupb g = groupcollide_loop (groupa g) groupb g"

text \<open>Lines 376 to 383: enemies against the player. The loop body runs once for each
  enemy \<open>spritecollide\<close> returned.\<close>

definition hit_by_enemy :: "nat \<Rightarrow> game \<Rightarrow> game" where
  "hit_by_enemy enemy g =
     (let g1 = new_Explosion enemy g;
          g2 = new_Explosion (player g1) g1;
          g3 = g2\<lparr>SCORE := SCORE g2 + 1\<rparr>
      in kill (player g3) g3)"

definition player_vs_enemies :: "game \<Rightarrow> game" where
  "player_vs_enemies g =
     (let (crashed, g1) = spritecollide (player g) enemies g
      in fold hit_by_enemy crashed g1)"

text \<open>Lines 385 to 390: shots against enemies. The loop body runs once for each key
  of the dictionary \<open>groupcollide\<close> returned.\<close>

definition enemy_shot :: "nat \<Rightarrow> game \<Rightarrow> game" where
  "enemy_shot enemy g =
     (let g1 = new_Explosion enemy g
      in g1\<lparr>SCORE := SCORE g1 + 1\<rparr>)"

definition shots_vs_enemies :: "game \<Rightarrow> game" where
  "shots_vs_enemies g =
     (let (crashed, g1) = groupcollide enemies shots g
      in fold enemy_shot (map fst crashed) g1)"

text \<open>Lines 392 to 397: enemy bullets against the player.\<close>

definition hit_by_bullet :: "nat \<Rightarrow> game \<Rightarrow> game" where
  "hit_by_bullet enemy_bullet g =
     (let g1 = new_Explosion (player g) g
      in kill (player g1) g1)"

definition player_vs_enemy_bullets :: "game \<Rightarrow> game" where
  "player_vs_enemy_bullets g =
     (let (crashed, g1) = spritecollide (player g) enemy_bullets g
      in fold hit_by_bullet crashed g1)"

definition collisions :: "game \<Rightarrow> game" where
  "collisions g = player_vs_enemy_bullets (shots_vs_enemies (player_vs_enemies g))"

subsection \<open>Drawing\<close>

text \<open>
  \<^verbatim>\<open>all.clear(screen, background)\<close> paints the background over the rectangles in
  \<open>lostsprites\<close> and over the rectangle each member was last drawn at; it changes the
  screen only, which the state does not hold.

  \<^verbatim>\<open>all.draw(screen)\<close> starts its result with \<open>lostsprites\<close>, then blits every member:
  a member drawn before adds the union of its old and new rectangle when they collide
  and both of them when they do not, a member not drawn before (or last drawn on an
  empty rectangle) adds the new one. The group remembers the new rectangles.
\<close>

definition draw_sprite :: "assets \<Rightarrow> (nat \<Rightarrow> sprite) \<Rightarrow> nat \<times> rect option \<Rightarrow> rect list" where
  "draw_sprite A st e =
     (let new_rect = blit_sprite A (st (fst e))
      in case snd e of
           None \<Rightarrow> [new_rect]
         | Some old_rect \<Rightarrow>
             (if rect_bool old_rect
              then (if colliderect new_rect old_rect then [union_rect new_rect old_rect]
                    else [new_rect, old_rect])
              else [new_rect]))"

fun draw_loop ::
  "assets \<Rightarrow> (nat \<Rightarrow> sprite) \<Rightarrow> (nat \<times> rect option) list \<Rightarrow> rect list
     \<Rightarrow> rect list \<times> (nat \<times> rect option) list" where
  "draw_loop A st [] acc = (acc, [])"
| "draw_loop A st (e # es) acc =
     (let (dirty', spritedict) = draw_loop A st es (acc @ draw_sprite A st e)
      in (dirty', (fst e, Some (blit_sprite A (st (fst e)))) # spritedict))"

definition draw :: "game \<Rightarrow> game" where
  "draw g =
     (let (dirty', spritedict) = draw_loop (cfg g) (store g) (all g) (lostsprites g)
      in g\<lparr>lostsprites := [], all := spritedict, dirty := dirty'\<rparr>)"

subsection \<open>The loop\<close>

text \<open>The body of the \<^verbatim>\<open>while\<close> loop after the events, lines 347 to 401.\<close>

definition tick :: "keys \<Rightarrow> game \<Rightarrow> game" where
  "tick k g =
     (let g1 = update_all g;
          g2 = move_player (direction k) g1;
          g3 = fire (K_SPACE k) g2;
          g4 = create_enemy g3;
          g5 = shoot_enemy_bullets g4;
          g6 = collisions g5
      in draw g6)"

text \<open>The state \<^verbatim>\<open>main\<close> builds before the loop: the groups are empty, then come the
  player, the first enemy and, when the font module is there, the score.\<close>

definition init :: "assets \<Rightarrow> (nat \<Rightarrow> real) \<Rightarrow> game" where
  "init A samples =
     (let g0 = \<lparr>cfg = A, store = (\<lambda>_. Score (Rect 0 0 0 0) 0), next_id = 0, player = 0,
                enemies = [], shots = [], enemy_bullets = [], all = [], lostsprites = [],
                lastenemy = None, SCORE = 0, enemyreload = ENEMY_RELOAD,
                rng = samples, rng_pos = 0, dirty = []\<rparr>;
          g1 = new_Player g0;
          g2 = new_Enemy g1
      in if has_font A then new_Score g2 else g2)"

text \<open>The loop runs while the player is alive and returns on a quit event. It is run
  here on the inputs of finitely many ticks; the result is the state it has reached
  when it stops or the inputs end.\<close>

fun main_loop :: "keys list \<Rightarrow> game \<Rightarrow> game" where
  "main_loop [] g = g"
| "main_loop (k # ks) g =
     (if \<not> alive (player g) g then g
      else if quit k then g
      else main_loop ks (tick k g))"

section \<open>Well-formed states\<close>

text \<open>
  What pygame's objects guarantee and the lists of the model do not by themselves:
  the variable \<^verbatim>\<open>player\<close> holds a \<^verbatim>\<open>Player\<close>; a group holds a sprite once; the player,
  the enemies, the shots and the enemy bullets are different objects; every member of a
  group has been created, and the members of the three small groups are in \<open>all\<close>;
  the sprite in \<open>lastenemy\<close> is a live enemy and none of the live enemies was created
  after it. \<open>init\<close> builds such a state and \<open>tick\<close> keeps it so.
\<close>

definition wf :: "game \<Rightarrow> bool" where
  "wf g =
     (is_Player (store g (player g))
      \<and> distinct (player g # enemies g @ shots g @ enemy_bullets g)
      \<and> distinct (map fst (all g))
      \<and> (\<forall>i\<in>set (player g # enemies g @ shots g @ enemy_bullets g @ map fst (all g)).
            i < next_id g)
      \<and> (\<forall>i\<in>set (enemies g @ shots g @ enemy_bullets g). i \<in> set (map fst (all g)))
      \<and> (case lastenemy g of
            None \<Rightarrow> True
          | Some e \<Rightarrow> e \<in> set (enemies g) \<and> (\<forall>i\<in>set (enemies g). i \<le> e)))"

text \<open>\<open>extends g g'\<close>: from \<open>g\<close> to \<open>g'\<close> objects were created, and none of the objects
  of \<open>g\<close> was changed. The collision phase is of this kind.\<close>

definition extends :: "game \<Rightarrow> game \<Rightarrow> bool" where
  "extends g g' =
     (cfg g' = cfg g \<and> player g' = player g \<and> rng g' = rng g
      \<and> next_id g \<le> next_id g'
      \<and> (\<forall>i\<in>{..<next_id g}. store g' i = store g i))"

section \<open>Parts of a tick\<close>

text \<open>The state of a tick when the collision checks begin (line 376).\<close>

definition before_collisions :: "keys \<Rightarrow> game \<Rightarrow> game" where
  "before_collisions k g =
     shoot_enemy_bullets (create_enemy (fire (K_SPACE k)
       (move_player (direction k) (update_all g))))"

text \<open>The part of a tick after the player's input (lines 365 to 401): it creates objects and changes groups,
  and leaves the objects there are as they are.\<close>

definition after_input :: "game \<Rightarrow> game" where
  "after_input g = draw (collisions (shoot_enemy_bullets (create_enemy g)))"

text \<open>The invariant of a session behind the clamp: the state is well formed and the
  player's rectangle, no wider than the play-field, lies between its left and right edge.\<close>

definition player_inside :: "game \<Rightarrow> bool" where
  "player_inside g =
     (wf g \<and> width (rect (store g (player g))) \<le> 640
      \<and> 0 \<le> left (rect (store g (player g))) \<and> right (rect (store g (player g))) \<le> 640)"

section \<open>The collision phase and the draw, told from the state they start in\<close>

text \<open>
  What the check of the shots against the enemies reports, told from rectangles \<open>R\<close>, a
  list of enemies and a list of shots: it goes through the enemies in order, and an
  enemy that overlaps some of the shots that are left is reported with those shots,
  which are then not there for the enemies after it.
\<close>

fun shot_hits :: "(nat \<Rightarrow> rect) \<Rightarrow> nat list \<Rightarrow> nat list \<Rightarrow> (nat \<times> nat list) list" where
  "shot_hits R [] ss = []"
| "shot_hits R (e # es) ss =
     (let c = filter (\<lambda>s. colliderect (R e) (R s)) ss
      in if c \<noteq> [] then (e, c) # shot_hits R es (filter (\<lambda>s. s \<notin> set c) ss)
         else shot_hits R es ss)"

text \<open>For a state \<open>g\<close> in which the collision phase begins: the sprite overlaps the
  player's rectangle; what the check of the shots against the enemies reports when it
  goes through the enemies that do not overlap the player, on the rectangles and the
  shots of \<open>g\<close>; the explosion \<^verbatim>\<open>Explosion(actor)\<close> makes of an actor of \<open>g\<close>.\<close>

definition overlaps_player :: "game \<Rightarrow> nat \<Rightarrow> bool" where
  "overlaps_player g i = colliderect (rect (store g (player g))) (rect (store g i))"

definition start_hits :: "game \<Rightarrow> (nat \<times> nat list) list" where
  "start_hits g =
     shot_hits (\<lambda>i. rect (store g i)) (filter (\<lambda>e. \<not> overlaps_player g e) (enemies g))
       (shots g)"

definition explosion_of :: "game \<Rightarrow> nat \<Rightarrow> sprite" where
  "explosion_of g actor = Explosion_init (cfg g) (store g actor)"

text \<open>
  \<open>since_draw g h\<close>: \<open>h\<close> is a state the program reaches from \<open>g\<close> without drawing. The
  members of \<open>all\<close> that were created since have not been drawn; those that are left of
  the members of \<open>g\<close> are in the order they had and were last drawn where \<open>g\<close> says; and
  \<open>lostsprites\<close> has grown by rectangles on which members of \<open>g\<close> that are gone were
  last drawn.
\<close>

definition since_draw :: "game \<Rightarrow> game \<Rightarrow> bool" where
  "since_draw g h =
     (next_id g \<le> next_id h
      \<and> (\<forall>e\<in>set (all g). fst e < next_id g)
      \<and> (\<forall>e\<in>set (all h). next_id g \<le> fst e \<longrightarrow> snd e = None)
      \<and> filter (\<lambda>e. fst e < next_id g) (all h) =
          filter (\<lambda>e. fst e \<in> fst ` set (all h)) (all g)
      \<and> (\<exists>L. lostsprites h = lostsprites g @ L
              \<and> (\<forall>r\<in>set L. \<exists>i. (i, Some r) \<in> set (all g) \<and> i \<notin> fst ` set (all h))))"

section \<open>Example states\<close>

text \<open>Image sizes for the examples; blitting paints the whole rectangle of the sprite,
  and a float coordinate is rounded to the nearest integer.\<close>

definition example_assets :: assets where
  "example_assets =
     \<lparr>player_size = (40, 30), enemy_size = (40, 30), explosion_size = (20, 20),
      shot_size = (4, 10), enemy_bullet_size = (6, 6), score_size = (60, 14),
      has_font = True, blit = (\<lambda>image r. r), float_coord = round\<rparr>"

definition keys_idle :: keys where
  "keys_idle = \<lparr>K_RIGHT = False, K_LEFT = False, K_SPACE = False, quit = False\<rparr>"

definition keys_left :: keys where
  "keys_left = \<lparr>K_RIGHT = False, K_LEFT = True, K_SPACE = False, quit = False\<rparr>"

definition keys_fire :: keys where
  "keys_fire = \<lparr>K_RIGHT = False, K_LEFT = False, K_SPACE = True, quit = False\<rparr>"

text \<open>A state in which the enemies 1 and 2 overlap the player and enemy 3 is far away.\<close>

definition g_crash :: game where
  "g_crash =
     \<lparr>cfg = example_assets,
      store = (\<lambda>_. Score (Rect 10 450 60 14) 5)
        (0 := Player (Rect 300 450 40 30) 0 False 450 (- 1) 100,
         1 := Enemy (Rect 290 440 40 30) 0 5 98,
         2 := Enemy (Rect 320 445 40 30) 0 5 99,
         3 := Enemy (Rect 10 100 40 30) 0 5 30),
      next_id = 4, player = 0, enemies = [1, 2, 3], shots = [], enemy_bullets = [],
      all = [(0, Some (Rect 300 450 40 30)), (1, Some (Rect 290 435 40 30)),
             (2, Some (Rect 320 440 40 30)), (3, Some (Rect 10 95 40 30))],
      lostsprites = [], lastenemy = Some 3, SCORE = 5, enemyreload = 3,
      rng = (\<lambda>_. 1 / 2), rng_pos = 7, dirty = []\<rparr>"

text \<open>A state at the start of a tick: enemy 1 is about to reach the player, shot 3 is
  about to reach enemy 2, enemy 4 is far from both, and enemy bullet 5 is about to reach
  the player.\<close>

definition g_tick :: game where
  "g_tick =
     \<lparr>cfg = example_assets,
      store = (\<lambda>_. Score (Rect 10 450 60 14) 5)
        (0 := Player (Rect 300 450 40 30) 0 False 450 (- 1) 100,
         1 := Enemy (Rect 290 435 40 30) 0 5 97,
         2 := Enemy (Rect 100 200 40 30) 0 5 40,
         3 := Shot (Rect 110 235 4 10) 0,
         4 := Enemy (Rect 500 50 40 30) 0 5 10,
         5 := EnemyBullet (Rect 310 440 6 6) 0),
      next_id = 6, player = 0, enemies = [1, 2, 4], shots = [3], enemy_bullets = [5],
      all = [(0, Some (Rect 300 450 40 30)), (1, Some (Rect 290 435 40 30)),
             (2, Some (Rect 100 200 40 30)), (3, Some (Rect 110 235 4 10)),
             (4, Some (Rect 500 50 40 30)), (5, Some (Rect 310 440 6 6))],
      lostsprites = [], lastenemy = Some 4, SCORE = 5, enemyreload = 3,
      rng = (\<lambda>_. 1 / 2), rng_pos = 7, dirty = []\<rparr>"

text \<open>A state at the start of the collision checks: enemy 1 overlaps the player and
  shot 2.\<close>

definition g_both :: game where
  "g_both =
     \<lparr>cfg = example_assets,
      store = (\<lambda>_. Score (Rect 10 450 60 14) 5)
        (0 := Player (Rect 300 450 40 30) 0 True 450 (- 1) 100,
         1 := Enemy (Rect 300 440 40 30) 0 5 98,
         2 := Shot (Rect 329 440 4 10) 0),
      next_id = 3, player = 0, enemies = [1], shots = [2], enemy_bullets = [],
      all = [(0, Some (Rect 300 450 40 30)), (1, Some (Rect 300 435 40 30)), (2, None)],
      lostsprites = [], lastenemy = Some 1, SCORE = 5, enemyreload = 3,
      rng = (\<lambda>_. 1 / 2), rng_pos = 7, dirty = []\<rparr>"

text \<open>A state at the start of a tick: the fire key was not held in the tick before and
  two shots are on their way; there is no enemy.\<close>

definition g_cap :: game where
  "g_cap =
     \<lparr>cfg = example_assets,
      store = (\<lambda>_. Score (Rect 10 450 60 14) 5)
        (0 := Player (Rect 300 450 40 30) 0 False 450 (- 1) 3,
         1 := Shot (Rect 329 300 4 10) 0,
         2 := Shot (Rect 329 400 4 10) 0),
      next_id = 4, player = 0, enemies = [], shots = [1, 2], enemy_bullets = [],
      all = [(0, Some (Rect 300 450 40 30)), (1, Some (Rect 329 300 4 10)),
             (2, Some (Rect 329 400 4 10)), (3, Some (Rect 10 450 60 14))],
      lostsprites = [], lastenemy = None, SCORE = 5, enemyreload = 12,
      rng = (\<lambda>_. 1 / 2), rng_pos = 7, dirty = []\<rparr>"

text \<open>A state at the start of a tick: shot 2 is about to reach enemy 3, the enemy created
  last; enemy 1, created before it, is far from the shot and the player. The next
  sample of the random source is \<open>1 / 2\<close>, all the later ones are \<open>0\<close>.\<close>

definition g_last :: game where
  "g_last =
     \<lparr>cfg = example_assets,
      store = (\<lambda>_. Score (Rect 10 450 60 14) 5)
        (0 := Player (Rect 300 450 40 30) 0 False 450 (- 1) 100,
         1 := Enemy (Rect 500 150 40 30) 0 5 36,
         2 := Shot (Rect 110 235 4 10) 0,
         3 := Enemy (Rect 100 200 40 30) 0 5 46),
      next_id = 4, player = 0, enemies = [1, 3], shots = [2], enemy_bullets = [],
      all = [(0, Some (Rect 300 450 40 30)), (1, Some (Rect 500 150 40 30)),
             (2, Some (Rect 110 235 4 10)), (3, Some (Rect 100 200 40 30))],
      lostsprites = [], lastenemy = Some 3, SCORE = 5, enemyreload = 12,
      rng = (\<lambda>n. if n = 7 then 1 / 2 else 0), rng_pos = 7, dirty = []\<rparr>"

text \<open>A state at the start of a tick with the player and the score only, both drawn
  before where they are.\<close>

definition g_still :: game where
  "g_still =
     \<lparr>cfg = example_assets,
      store = (\<lambda>_. Score (Rect 10 450 60 14) 5)
        (0 := Player (Rect 300 450 40 30) 0 False 450 (- 1) 3),
      next_id = 2, player = 0, enemies = [], shots = [], enemy_bullets = [],
      all = [(0, Some (Rect 300 450 40 30)), (1, Some (Rect 10 450 60 14))],
      lostsprites = [], lastenemy = None, SCORE = 5, enemyreload = 12,
      rng = (\<lambda>_. 1 / 2), rng_pos = 7, dirty = []\<rparr>"

text \<open>A state at the start of the collision checks: enemy 1 overlaps the player, shot 3
  overlaps enemy 2, enemy 4 is far from everything and enemy bullet 5 overlaps the
  player.\<close>

definition g_hit :: game where
  "g_hit =
     \<lparr>cfg = example_assets,
      store = (\<lambda>_. Score (Rect 10 450 60 14) 5)
        (0 := Player (Rect 300 450 40 30) 0 False 450 (- 1) 101,
         1 := Enemy (Rect 290 440 40 30) 0 5 98,
         2 := Enemy (Rect 100 205 40 30) 0 5 41,
         3 := Shot (Rect 110 224 4 10) 0,
         4 := Enemy (Rect 500 55 40 30) 0 5 11,
         5 := EnemyBullet (Rect 310 449 6 6) 0),
      next_id = 6, player = 0, enemies = [1, 2, 4], shots = [3], enemy_bullets = [5],
      all = [(0, Some (Rect 300 450 40 30)), (1, Some (Rect 290 435 40 30)),
             (2, Some (Rect 100 200 40 30)), (3, Some (Rect 110 235 4 10)),
             (4, Some (Rect 500 50 40 30)), (5, Some (Rect 310 440 6 6))],
      lostsprites = [], lastenemy = Some 4, SCORE = 5, enemyreload = 2,
      rng = (\<lambda>_. 1 / 2), rng_pos = 8, dirty = []\<rparr>"

text \<open>A state at the start of the collision checks: the enemies 1 and 2 both overlap
  shot 3, and enemy bullet 4 overlaps the player.\<close>

definition g_two :: game where
  "g_two =
     \<lparr>cfg = example_assets,
      store = (\<lambda>_. Score (Rect 10 450 60 14) 5)
        (0 := Player (Rect 300 450 40 30) 0 False 450 (- 1) 101,
         1 := Enemy (Rect 100 205 40 30) 0 5 41,
         2 := Enemy (Rect 105 210 40 30) 0 5 42,
         3 := Shot (Rect 110 224 4 10) 0,
         4 := EnemyBullet (Rect 310 449 6 6) 0),
      next_id = 5, player = 0, enemies = [1, 2], shots = [3], enemy_bullets = [4],
      all = [(0, Some (Rect 300 450 40 30)), (1, Some (Rect 100 200 40 30)),
             (2, Some (Rect 105 205 40 30)), (3, Some (Rect 110 235 4 10)),
             (4, Some (Rect 310 440 6 6))],
      lostsprites = [], lastenemy = Some 2, SCORE = 5, enemyreload = 2,
      rng = (\<lambda>_. 1 / 2), rng_pos = 8, dirty = []\<rparr>"

section \<open>Properties\<close>

subsection \<open>The fields after each operation\<close>

lemma kill_fields [simp]:
  "cfg (kill s g) = cfg g" "store (kill s g) = store g" "next_id (kill s g) = next_id g"
  "player (kill s g) = player g" "SCORE (kill s g) = SCORE g"
  "enemyreload (kill s g) = enemyreload g" "rng (kill s g) = rng g"
  "rng_pos (kill s g) = rng_pos g" "dirty (kill s g) = dirty g"
  "enemies (kill s g) = removeAll s (enemies g)"
  "shots (kill s g) = removeAll s (shots g)"
  "enemy_bullets (kill s g) = removeAll s (enemy_bullets g)"
  "all (kill s g) = filter (\<lambda>e. fst e \<noteq> s) (all g)"
  "lastenemy (kill s g) = (if lastenemy g = Some s then None else lastenemy g)"
  by (simp_all add: kill_def)

lemma new_Explosion_fields [simp]:
  "cfg (new_Explosion a g) = cfg g"
  "store (new_Explosion a g) = (store g)(next_id g := Explosion_init (cfg g) (store g a))"
  "next_id (new_Explosion a g) = next_id g + 1"
  "player (new_Explosion a g) = player g" "SCORE (new_Explosion a g) = SCORE g"
  "enemyreload (new_Explosion a g) = enemyreload g" "rng (new_Explosion a g) = rng g"
  "rng_pos (new_Explosion a g) = rng_pos g" "dirty (new_Explosion a g) = dirty g"
  "enemies (new_Explosion a g) = enemies g" "shots (new_Explosion a g) = shots g"
  "enemy_bullets (new_Explosion a g) = enemy_bullets g"
  "all (new_Explosion a g) = all g @ [(next_id g, None)]"
  "lostsprites (new_Explosion a g) = lostsprites g"
  "lastenemy (new_Explosion a g) = lastenemy g"
  by (simp_all add: new_Explosion_def add_all_def new_object_def)

lemma new_Shot_fields [simp]:
  "cfg (new_Shot pos g) = cfg g"
  "store (new_Shot pos g) = (store g)(next_id g := Shot_init (cfg g) pos)"
  "next_id (new_Shot pos g) = next_id g + 1"
  "player (new_Shot pos g) = player g" "SCORE (new_Shot pos g) = SCORE g"
  "enemyreload (new_Shot pos g) = enemyreload g" "rng (new_Shot pos g) = rng g"
  "rng_pos (new_Shot pos g) = rng_pos g" "dirty (new_Shot pos g) = dirty g"
  "enemies (new_Shot pos g) = enemies g" "shots (new_Shot pos g) = shots g @ [next_id g]"
  "enemy_bullets (new_Shot pos g) = enemy_bullets g"
  "all (new_Shot pos g) = all g @ [(next_id g, None)]"
  "lostsprites (new_Shot pos g) = lostsprites g"
  "lastenemy (new_Shot pos g) = lastenemy g"
  by (simp_all add: new_Shot_def add_all_def new_object_def Let_def)

lemma new_EnemyBullet_fields [simp]:
  "cfg (new_EnemyBullet e g) = cfg g"
  "store (new_EnemyBullet e g) = (store g)(next_id g := EnemyBullet_init (cfg g) (store g e))"
  "next_id (new_EnemyBullet e g) = next_id g + 1"
  "player (new_EnemyBullet e g) = player g" "SCORE (new_EnemyBullet e g) = SCORE g"
  "enemyreload (new_EnemyBullet e g) = enemyreload g" "rng (new_EnemyBullet e g) = rng g"
  "rng_pos (new_EnemyBullet e g) = rng_pos g" "dirty (new_EnemyBullet e g) = dirty g"
  "enemies (new_EnemyBullet e g) = enemies g" "shots (new_EnemyBullet e g) = shots g"
  "enemy_bullets (new_EnemyBullet e g) = enemy_bullets g @ [next_id g]"
  "all (new_EnemyBullet e g) = all g @ [(next_id g, None)]"
  "lostsprites (new_EnemyBullet e g) = lostsprites g"
  "lastenemy (new_EnemyBullet e g) = lastenemy g"
  by (simp_all add: new_EnemyBullet_def add_all_def new_object_def Let_def)

lemma new_Enemy_fields [simp]:
  "cfg (new_Enemy g) = cfg g"
  "store (new_Enemy g) = (store g)(next_id g := Enemy_init (cfg g) (rng g (rng_pos g)))"
  "next_id (new_Enemy g) = next_id g + 1"
  "player (new_Enemy g) = player g" "SCORE (new_Enemy g) = SCORE g"
  "enemyreload (new_Enemy g) = enemyreload g" "rng (new_Enemy g) = rng g"
  "rng_pos (new_Enemy g) = rng_pos g + 1" "dirty (new_Enemy g) = dirty g"
  "enemies (new_Enemy g) = enemies g @ [next_id g]" "shots (new_Enemy g) = shots g"
  "enemy_bullets (new_Enemy g) = enemy_bullets g"
  "all (new_Enemy g) = all g @ [(next_id g, None)]"
  "lostsprites (new_Enemy g) = lostsprites g"
  "lastenemy (new_Enemy g) = Some (next_id g)"
  by (simp_all add: new_Enemy_def random_def add_all_def new_object_def Let_def)

lemma map_fst_filter_ne: "map fst (filter (\<lambda>e. fst e \<noteq> s) xs) = removeAll s (map fst xs)"
  by (induction xs) auto

lemma wf_kill: "wf g \<Longrightarrow> wf (kill s g)"
  unfolding wf_def
  by (auto simp: map_fst_filter_ne distinct_removeAll split: option.splits)

lemma wf_new_Explosion: "wf g \<Longrightarrow> wf (new_Explosion a g)"
  unfolding wf_def by (auto simp: less_Suc_eq split: option.splits)

lemma wf_new_Shot: "wf g \<Longrightarrow> wf (new_Shot pos g)"
  unfolding wf_def by (auto simp: less_Suc_eq split: option.splits)

lemma wf_new_EnemyBullet: "wf g \<Longrightarrow> wf (new_EnemyBullet e g)"
  unfolding wf_def by (auto simp: less_Suc_eq split: option.splits)

lemma wf_new_Enemy: "wf g \<Longrightarrow> wf (new_Enemy g)"
  unfolding wf_def by (auto simp: less_Suc_eq less_imp_le split: option.splits)

lemma wf_store_upd:
  "wf g \<Longrightarrow> (sid = player g \<Longrightarrow> is_Player s) \<Longrightarrow> wf (g\<lparr>store := (store g)(sid := s)\<rparr>)"
  unfolding wf_def by (auto split: option.splits)

lemma wf_irrelevant [simp]:
  "wf (g\<lparr>SCORE := a\<rparr>) = wf g" "wf (g\<lparr>enemyreload := b\<rparr>) = wf g"
  "wf (g\<lparr>rng_pos := c\<rparr>) = wf g" "wf (g\<lparr>dirty := d\<rparr>) = wf g"
  "wf (g\<lparr>lostsprites := l\<rparr>) = wf g"
  by (simp_all add: wf_def split: option.splits)

lemma wf_is_Player: "wf g \<Longrightarrow> is_Player (store g (player g))"
  by (simp add: wf_def)

lemma wf_player_lt: "wf g \<Longrightarrow> player g < next_id g"
  by (simp add: wf_def)

lemma wf_update_sprite: "wf g \<Longrightarrow> wf (update_sprite sid g)"
proof -
  assume w: "wf g"
  obtain s k where u: "update (cfg g) (SCORE g) (store g sid) = (s, k)" by fastforce
  have p: "sid = player g \<Longrightarrow> is_Player s"
    using w u by (cases "store g sid") (auto simp: wf_def Let_def)
  have "wf (g\<lparr>store := (store g)(sid := s)\<rparr>)" using wf_store_upd [OF w p] .
  then show ?thesis
    using u by (simp add: update_sprite_def Let_def wf_kill)
qed

lemma wf_fold_update_sprite: "wf g \<Longrightarrow> wf (fold update_sprite ids g)"
  by (induction ids arbitrary: g) (simp_all add: wf_update_sprite)

lemma wf_update_all: "wf g \<Longrightarrow> wf (update_all g)"
  by (simp add: update_all_def wf_fold_update_sprite)

lemma is_Player_move [simp]: "is_Player (Player_move d p) = is_Player p"
  by (cases p) (simp_all add: Let_def)

lemma is_Player_set_reloading [simp]: "is_Player (set_reloading v p) = is_Player p"
  by (cases p) simp_all

lemma wf_move_player: "wf g \<Longrightarrow> wf (move_player d g)"
  unfolding move_player_def by (rule wf_store_upd) (simp_all add: wf_is_Player)

lemma wf_fire: "wf g \<Longrightarrow> wf (fire f g)"
proof -
  assume w: "wf g"
  define g1 where "g1 = (if shoots f g then new_Shot (gunpos (store g (player g))) g else g)"
  have w1: "wf g1" using w by (simp add: g1_def wf_new_Shot)
  have "wf (g1\<lparr>store := (store g1)(player g1 := set_reloading f (store g1 (player g1)))\<rparr>)"
    by (rule wf_store_upd [OF w1]) (simp add: wf_is_Player [OF w1])
  then show ?thesis by (simp add: fire_def g1_def Let_def)
qed

lemma wf_create_enemy: "wf g \<Longrightarrow> wf (create_enemy g)"
  by (auto simp: create_enemy_def random_def Let_def wf_new_Enemy)

lemma wf_shoot_enemy_bullets: "wf g \<Longrightarrow> wf (shoot_enemy_bullets g)"
  by (auto simp: shoot_enemy_bullets_def random_def Let_def wf_new_EnemyBullet
      split: option.splits)

lemma wf_spritecollide_loop: "wf g \<Longrightarrow> wf (snd (spritecollide_loop r ss g))"
  by (induction ss arbitrary: g) (simp_all add: wf_kill split_beta)

lemma wf_spritecollide: "wf g \<Longrightarrow> wf (snd (spritecollide sp grp g))"
  by (simp add: spritecollide_def wf_spritecollide_loop)

lemma wf_groupcollide_loop: "wf g \<Longrightarrow> wf (snd (groupcollide_loop as grp g))"
proof (induction as arbitrary: g)
  case Nil
  then show ?case by simp
next
  case (Cons a as)
  obtain c g1 where sc: "spritecollide a grp g = (c, g1)" by fastforce
  have w1: "wf g1" using wf_spritecollide [OF Cons.prems, of a grp] sc by simp
  show ?case
    using sc Cons.IH [OF w1] Cons.IH [OF wf_kill [OF w1]]
    by (simp add: split_beta)
qed

lemma wf_hit_by_enemy: "wf g \<Longrightarrow> wf (hit_by_enemy e g)"
  by (simp add: hit_by_enemy_def Let_def wf_kill wf_new_Explosion)

lemma wf_enemy_shot: "wf g \<Longrightarrow> wf (enemy_shot e g)"
  by (simp add: enemy_shot_def Let_def wf_new_Explosion)

lemma wf_hit_by_bullet: "wf g \<Longrightarrow> wf (hit_by_bullet e g)"
  by (simp add: hit_by_bullet_def Let_def wf_kill wf_new_Explosion)

lemma wf_fold:
  "(\<And>x g. wf g \<Longrightarrow> wf (f x g)) \<Longrightarrow> wf g \<Longrightarrow> wf (fold f xs g)"
  by (induction xs arbitrary: g) simp_all

lemma wf_player_vs_enemies: "wf g \<Longrightarrow> wf (player_vs_enemies g)"
  using wf_spritecollide [of g "player g" enemies]
  by (auto simp: player_vs_enemies_def split: prod.splits intro!: wf_fold wf_hit_by_enemy)

lemma wf_shots_vs_enemies: "wf g \<Longrightarrow> wf (shots_vs_enemies g)"
  using wf_groupcollide_loop [of g "enemies g" shots]
  by (auto simp: shots_vs_enemies_def groupcollide_def split: prod.splits
      intro!: wf_fold wf_enemy_shot)

lemma wf_player_vs_enemy_bullets: "wf g \<Longrightarrow> wf (player_vs_enemy_bullets g)"
  using wf_spritecollide [of g "player g" enemy_bullets]
  by (auto simp: player_vs_enemy_bullets_def split: prod.splits
      intro!: wf_fold wf_hit_by_bullet)

lemma wf_collisions: "wf g \<Longrightarrow> wf (collisions g)"
  by (simp add: collisions_def wf_player_vs_enemies wf_shots_vs_enemies
      wf_player_vs_enemy_bullets)

lemma draw_loop_ids: "map fst (snd (draw_loop A st es acc)) = map fst es"
  by (induction es arbitrary: acc) (simp_all add: split_beta)

lemma wf_all_upd: "map fst a = map fst (all g) \<Longrightarrow> wf (g\<lparr>all := a\<rparr>) = wf g"
  by (simp add: wf_def del: set_map split: option.splits)

lemma wf_draw: "wf g \<Longrightarrow> wf (draw g)"
  using draw_loop_ids [of "cfg g" "store g" "all g" "lostsprites g"]
  by (simp add: draw_def split_beta wf_all_upd)

lemma wf_tick: "wf g \<Longrightarrow> wf (tick k g)"
  by (simp add: tick_def Let_def wf_draw wf_collisions wf_shoot_enemy_bullets
      wf_create_enemy wf_fire wf_move_player wf_update_all)

lemma wf_main_loop: "wf g \<Longrightarrow> wf (main_loop ks g)"
  by (induction ks arbitrary: g) (simp_all add: wf_tick)

lemma wf_init: "wf (init A samples)"
  by (simp add: init_def Let_def new_Score_def new_Player_def add_all_def new_object_def
      wf_def Player_init_def)

subsection \<open>Objects are created, never replaced\<close>

lemma extends_refl [simp]: "extends g g"
  by (simp add: extends_def)

lemma extends_trans [trans]: "extends g g1 \<Longrightarrow> extends g1 g2 \<Longrightarrow> extends g g2"
  by (auto simp: extends_def)

lemma extends_kill: "extends g (kill s g)"
  by (simp add: extends_def)

lemma extends_new_Explosion: "extends g (new_Explosion a g)"
  by (simp add: extends_def)

lemma extends_new_Shot: "extends g (new_Shot pos g)"
  by (simp add: extends_def)

lemma extends_new_Enemy: "extends g (new_Enemy g)"
  by (simp add: extends_def)

lemma extends_new_EnemyBullet: "extends g (new_EnemyBullet e g)"
  by (simp add: extends_def)

lemma extends_fold:
  "(\<And>x g. extends g (f x g)) \<Longrightarrow> extends g (fold f xs g)"
proof (induction xs arbitrary: g)
  case Nil
  then show ?case by simp
next
  case (Cons x xs)
  have "extends g (f x g)" by (rule Cons.prems)
  moreover have "extends (f x g) (fold f xs (f x g))" by (rule Cons.IH) (rule Cons.prems)
  ultimately show ?case using extends_trans by simp
qed

lemma extends_spritecollide_loop: "extends g (snd (spritecollide_loop r ss g))"
proof (induction ss arbitrary: g)
  case Nil
  then show ?case by simp
next
  case (Cons s ss)
  show ?case
    using Cons.IH [of g] extends_trans [OF extends_kill [of g s] Cons.IH [of "kill s g"]]
    by (simp add: split_beta)
qed

lemma extends_spritecollide: "extends g (snd (spritecollide sp grp g))"
  by (simp add: spritecollide_def extends_spritecollide_loop)

lemma extends_groupcollide_loop: "extends g (snd (groupcollide_loop as grp g))"
proof (induction as arbitrary: g)
  case Nil
  then show ?case by simp
next
  case (Cons a as)
  define g1 where "g1 = snd (spritecollide a grp g)"
  have e1: "extends g g1" by (simp add: g1_def extends_spritecollide)
  have e2: "extends g (kill a g1)" using extends_trans [OF e1 extends_kill] .
  show ?case
    using extends_trans [OF e1 Cons.IH [of g1]] extends_trans [OF e2 Cons.IH [of "kill a g1"]]
    by (simp add: split_beta g1_def)
qed

lemma extends_SCORE_upd: "extends g (g\<lparr>SCORE := v\<rparr>)"
  by (simp add: extends_def)

lemma extends_hit_by_enemy: "extends g (hit_by_enemy e g)"
proof -
  define g1 where "g1 = new_Explosion e g"
  define g2 where "g2 = new_Explosion (player g1) g1"
  define g3 where "g3 = g2\<lparr>SCORE := SCORE g2 + 1\<rparr>"
  have "extends g g1" by (simp add: g1_def extends_new_Explosion)
  also have "extends g1 g2" by (simp add: g2_def extends_new_Explosion)
  also have "extends g2 g3" by (simp add: g3_def extends_SCORE_upd)
  also have "extends g3 (kill (player g3) g3)" by (rule extends_kill)
  finally show ?thesis by (simp add: hit_by_enemy_def Let_def g1_def g2_def g3_def)
qed

lemma extends_enemy_shot: "extends g (enemy_shot e g)"
  unfolding enemy_shot_def Let_def
  by (rule extends_trans [OF extends_new_Explosion extends_SCORE_upd])

lemma extends_hit_by_bullet: "extends g (hit_by_bullet b g)"
  unfolding hit_by_bullet_def Let_def
  by (rule extends_trans [OF extends_new_Explosion extends_kill])

lemma extends_player_vs_enemies: "extends g (player_vs_enemies g)"
  unfolding player_vs_enemies_def split_beta Let_def
  by (rule extends_trans [OF extends_spritecollide extends_fold]) (rule extends_hit_by_enemy)

lemma extends_shots_vs_enemies: "extends g (shots_vs_enemies g)"
  unfolding shots_vs_enemies_def groupcollide_def split_beta Let_def
  by (rule extends_trans [OF extends_groupcollide_loop extends_fold]) (rule extends_enemy_shot)

lemma extends_player_vs_enemy_bullets: "extends g (player_vs_enemy_bullets g)"
  unfolding player_vs_enemy_bullets_def split_beta Let_def
  by (rule extends_trans [OF extends_spritecollide extends_fold]) (rule extends_hit_by_bullet)

lemma extends_collisions: "extends g (collisions g)"
proof -
  have "extends g (player_vs_enemies g)" by (rule extends_player_vs_enemies)
  also have "extends \<dots> (shots_vs_enemies (player_vs_enemies g))"
    by (rule extends_shots_vs_enemies)
  also have "extends \<dots> (collisions g)"
    unfolding collisions_def by (rule extends_player_vs_enemy_bullets)
  finally show ?thesis .
qed

lemma extends_create_enemy: "extends g (create_enemy g)"
proof -
  have "extends g (g\<lparr>rng_pos := rng_pos g + 1\<rparr>)" by (simp add: extends_def)
  moreover have "extends g ((new_Enemy (g\<lparr>rng_pos := rng_pos g + 1\<rparr>))\<lparr>enemyreload := ENEMY_RELOAD\<rparr>)"
    by (simp add: extends_def)
  moreover have "extends g (g\<lparr>enemyreload := enemyreload g - 1\<rparr>)" by (simp add: extends_def)
  ultimately show ?thesis by (simp add: create_enemy_def random_def Let_def)
qed

lemma extends_shoot_enemy_bullets: "extends g (shoot_enemy_bullets g)"
proof -
  have "extends g (g\<lparr>rng_pos := rng_pos g + 1\<rparr>)" by (simp add: extends_def)
  moreover have "extends g (new_EnemyBullet e (g\<lparr>rng_pos := rng_pos g + 1\<rparr>))" for e
    by (simp add: extends_def)
  ultimately show ?thesis
    by (simp add: shoot_enemy_bullets_def random_def Let_def split: option.splits)
qed

lemma draw_fields [simp]:
  "cfg (draw g) = cfg g" "store (draw g) = store g" "next_id (draw g) = next_id g"
  "player (draw g) = player g" "SCORE (draw g) = SCORE g"
  "enemyreload (draw g) = enemyreload g" "rng (draw g) = rng g"
  "rng_pos (draw g) = rng_pos g" "enemies (draw g) = enemies g" "shots (draw g) = shots g"
  "enemy_bullets (draw g) = enemy_bullets g" "lastenemy (draw g) = lastenemy g"
  "lostsprites (draw g) = []" "map fst (all (draw g)) = map fst (all g)"
  using draw_loop_ids [of "cfg g" "store g" "all g" "lostsprites g"]
  by (simp_all add: draw_def split_beta)

lemma extends_draw: "extends g (draw g)"
  by (simp add: extends_def)


lemma extends_after_input: "extends g (after_input g)"
proof -
  have "extends g (create_enemy g)" by (rule extends_create_enemy)
  also have "extends \<dots> (shoot_enemy_bullets (create_enemy g))"
    by (rule extends_shoot_enemy_bullets)
  also have "extends \<dots> (collisions (shoot_enemy_bullets (create_enemy g)))"
    by (rule extends_collisions)
  also have "extends \<dots> (after_input g)"
    unfolding after_input_def by (rule extends_draw)
  finally show ?thesis .
qed

lemma tick_after_input:
  "tick k g = after_input (fire (K_SPACE k) (move_player (direction k) (update_all g)))"
  by (simp add: tick_def after_input_def Let_def)

subsection \<open>The update phase\<close>

lemma update_sprite_fields [simp]:
  "cfg (update_sprite sid g) = cfg g" "SCORE (update_sprite sid g) = SCORE g"
  "next_id (update_sprite sid g) = next_id g" "player (update_sprite sid g) = player g"
  "rng (update_sprite sid g) = rng g" "rng_pos (update_sprite sid g) = rng_pos g"
  "enemyreload (update_sprite sid g) = enemyreload g"
  "store (update_sprite sid g) = (store g)(sid := fst (update (cfg g) (SCORE g) (store g sid)))"
  by (simp_all add: update_sprite_def split_beta Let_def)

lemma fold_update_sprite_fields [simp]:
  "cfg (fold update_sprite ids g) = cfg g" "SCORE (fold update_sprite ids g) = SCORE g"
  "next_id (fold update_sprite ids g) = next_id g"
  "player (fold update_sprite ids g) = player g"
  "rng (fold update_sprite ids g) = rng g" "rng_pos (fold update_sprite ids g) = rng_pos g"
  "enemyreload (fold update_sprite ids g) = enemyreload g"
  by (induction ids arbitrary: g) simp_all

lemma fold_update_sprite_store:
  "distinct ids \<Longrightarrow>
   store (fold update_sprite ids g) sid =
     (if sid \<in> set ids then fst (update (cfg g) (SCORE g) (store g sid)) else store g sid)"
  by (induction ids arbitrary: g) auto

lemma update_all_fields [simp]:
  "cfg (update_all g) = cfg g" "SCORE (update_all g) = SCORE g"
  "next_id (update_all g) = next_id g" "player (update_all g) = player g"
  "rng (update_all g) = rng g" "rng_pos (update_all g) = rng_pos g"
  "enemyreload (update_all g) = enemyreload g"
  by (simp_all add: update_all_def)

lemma update_all_store:
  "wf g \<Longrightarrow>
   store (update_all g) sid =
     (if sid \<in> fst ` set (all g) then fst (update (cfg g) (SCORE g) (store g sid))
      else store g sid)"
  by (simp add: update_all_def fold_update_sprite_store wf_def)

lemma update_Player:
  "is_Player p \<Longrightarrow>
   fst (update A sc p) =
     Player (rect p) ((frame p + 1) div Player_animcycle mod Player_images_len) (reloading p)
       (origtop p) (facing p) (frame p + 1)"
  by (cases p) (simp_all add: Let_def)

subsection \<open>The player's object through a tick\<close>

lemma extends_store: "extends g g' \<Longrightarrow> i < next_id g \<Longrightarrow> store g' i = store g i"
  by (simp add: extends_def)

lemma extends_player: "extends g g' \<Longrightarrow> player g' = player g"
  by (simp add: extends_def)

lemma fire_player [simp]: "player (fire f g) = player g"
  by (simp add: fire_def Let_def)

lemma fire_store_player:
  "wf g \<Longrightarrow> store (fire f g) (player g) = set_reloading f (store g (player g))"
  using wf_player_lt [of g] by (simp add: fire_def Let_def)

lemma move_player_fields [simp]:
  "cfg (move_player d g) = cfg g" "SCORE (move_player d g) = SCORE g"
  "next_id (move_player d g) = next_id g" "player (move_player d g) = player g"
  "rng (move_player d g) = rng g" "rng_pos (move_player d g) = rng_pos g"
  "enemyreload (move_player d g) = enemyreload g"
  "enemies (move_player d g) = enemies g" "shots (move_player d g) = shots g"
  "enemy_bullets (move_player d g) = enemy_bullets g" "all (move_player d g) = all g"
  "lastenemy (move_player d g) = lastenemy g" "lostsprites (move_player d g) = lostsprites g"
  "store (move_player d g) = (store g)(player g := Player_move d (store g (player g)))"
  by (simp_all add: move_player_def)

lemma tick_player [simp]: "player (tick k g) = player g"
  using extends_player [OF extends_after_input] by (simp add: tick_after_input)

lemma tick_store_player:
  assumes "wf g"
  shows "store (tick k g) (player g) =
           set_reloading (K_SPACE k) (Player_move (direction k) (store (update_all g) (player g)))"
proof -
  define g2 where "g2 = move_player (direction k) (update_all g)"
  have w2: "wf g2" by (simp add: g2_def wf_move_player wf_update_all assms)
  have w3: "wf (fire (K_SPACE k) g2)" by (rule wf_fire [OF w2])
  have "store (tick k g) (player g) = store (fire (K_SPACE k) g2) (player g)"
    using extends_store [OF extends_after_input, of "player g" "fire (K_SPACE k) g2"]
      wf_player_lt [OF w3]
    by (simp add: tick_after_input g2_def)
  also have "\<dots> = set_reloading (K_SPACE k) (store g2 (player g))"
    using fire_store_player [OF w2] by (simp add: g2_def)
  finally show ?thesis by (simp add: g2_def)
qed

lemma update_all_player_rect:
  assumes "wf g"
  shows "is_Player (store (update_all g) (player g))"
    and "rect (store (update_all g) (player g)) = rect (store g (player g))"
    and "origtop (store (update_all g) (player g)) = origtop (store g (player g))"
    and "reloading (store (update_all g) (player g)) = reloading (store g (player g))"
  using wf_is_Player [OF assms] wf_is_Player [OF wf_update_all [OF assms]]
  by (simp_all add: update_all_store [OF assms] update_Player)

subsection \<open>The player's move\<close>

lemma rect_set_reloading [simp]: "rect (set_reloading v p) = rect p"
  by (cases p) simp_all

lemma origtop_set_reloading [simp]: "origtop (set_reloading v p) = origtop p"
  by (cases p) simp_all

lemma reloading_set_reloading [simp]: "is_Player p \<Longrightarrow> reloading (set_reloading v p) = v"
  by (cases p) simp_all

lemma Player_move_keeps [simp]:
  "width (rect (Player_move d p)) = width (rect p)"
  "origtop (Player_move d p) = origtop p"
  "reloading (Player_move d p) = reloading p"
  "frame (Player_move d p) = frame p"
  by (cases p; simp add: Let_def clamp_def set_top_def move_def)+

lemma Player_move_left:
  "is_Player p \<Longrightarrow> width (rect p) \<le> 640 \<Longrightarrow>
   0 \<le> left (rect (Player_move d p)) \<and> right (rect (Player_move d p)) \<le> 640"
  by (cases p)
    (auto simp: Let_def clamp_def clamp1_def set_top_def move_def right_def SCREENRECT_def)

lemma Player_move_top:
  "is_Player p \<Longrightarrow>
   top_edge (rect (Player_move d p)) =
     origtop p - (left (rect (Player_move d p)) div 24 mod 2)"
  by (cases p) (simp_all add: Let_def set_top_def Player_bounce_def)

lemma init_player:
  "player (init A samples) = 0"
  "store (init A samples) 0 = Player_init A"
  by (simp_all add: init_def Let_def new_Score_def new_Player_def add_all_def new_object_def)

lemma Player_init_bounds:
  "fst (player_size A) \<le> 640 \<Longrightarrow>
   width (rect (Player_init A)) \<le> 640 \<and> 0 \<le> left (rect (Player_init A))
   \<and> right (rect (Player_init A)) \<le> 640"
  by (auto simp: Player_init_def Let_def get_rect_midbottom_def midbottom_def centerx_def
      bottom_def right_def SCREENRECT_def)


lemma player_inside_tick: "player_inside g \<Longrightarrow> player_inside (tick k g)"
proof -
  assume a: "player_inside g"
  then have w: "wf g" by (simp add: player_inside_def)
  have p: "is_Player (store (update_all g) (player g))"
    "width (rect (store (update_all g) (player g))) \<le> 640"
    using a update_all_player_rect [OF w] by (simp_all add: player_inside_def)
  show ?thesis
    using Player_move_left [OF p, of "direction k"] p
    by (simp add: player_inside_def wf_tick [OF w] tick_store_player [OF w])
qed

lemma player_inside_main_loop: "player_inside g \<Longrightarrow> player_inside (main_loop ks g)"
  by (induction ks arbitrary: g) (simp_all add: player_inside_tick)

lemma player_inside_init: "fst (player_size A) \<le> 640 \<Longrightarrow> player_inside (init A samples)"
  using Player_init_bounds [of A]
  by (simp add: player_inside_def wf_init init_player)

text \<open>
  C6. After \<open>Player.move\<close> with a direction of \<open>-1\<close>, 0 or 1 the player's rectangle lies
  between the left edge (0) and the right edge (640) of the play-field, for every
  rectangle on which the sums of the move and of the clamp stay in the range of a C
  \<^verbatim>\<open>int\<close>; and so it does in every state of a session, after any number of ticks. The
  width of the player's image is a parameter: the statement is for an image that is not
  wider than the play-field.
\<close>

theorem Player_move_clamped:
  "(is_Player p \<and> (d = - 1 \<or> d = 0 \<or> d = 1) \<and> width (rect p) \<le> 640
      \<and> c_int (left (rect p)) \<and> c_int (width (rect p))
      \<and> c_int (left (rect p) + d * 10)
      \<and> c_int (left (rect p) + d * 10 + width (rect p)) \<longrightarrow>
      0 \<le> left (rect (Player_move d p)) \<and> right (rect (Player_move d p)) \<le> 640)
   \<and> (fst (player_size A) \<le> 640 \<longrightarrow>
        (let g = main_loop ks (init A samples); r = rect (store g (player g))
         in 0 \<le> left r \<and> right r \<le> 640))"
proof (intro conjI impI)
  assume "is_Player p \<and> (d = - 1 \<or> d = 0 \<or> d = 1) \<and> width (rect p) \<le> 640
      \<and> c_int (left (rect p)) \<and> c_int (width (rect p))
      \<and> c_int (left (rect p) + d * 10)
      \<and> c_int (left (rect p) + d * 10 + width (rect p))"
  then show "0 \<le> left (rect (Player_move d p))" "right (rect (Player_move d p)) \<le> 640"
    using Player_move_left [of p d] by simp_all
next
  assume "fst (player_size A) \<le> 640"
  then have "player_inside (main_loop ks (init A samples))"
    by (intro player_inside_main_loop player_inside_init)
  then show "let g = main_loop ks (init A samples); r = rect (store g (player g))
             in 0 \<le> left r \<and> right r \<le> 640"
    by (simp add: player_inside_def Let_def)
qed

theorem Player_move_clamped_witness:
  "is_Player (Player (Rect 2147483000 450 40 30) 0 False 450 (- 1) 0)
   \<and> width (rect (Player (Rect 2147483000 450 40 30) 0 False 450 (- 1) 0)) \<le> 640
   \<and> c_int 2147483000 \<and> c_int 40 \<and> c_int (2147483000 + 1 * 10)
   \<and> c_int (2147483000 + 1 * 10 + 40)
   \<and> left (rect (Player_move 1 (Player (Rect 2147483000 450 40 30) 0 False 450 (- 1) 0)))
       = 600
   \<and> right (rect (Player_move 1 (Player (Rect 2147483000 450 40 30) 0 False 450 (- 1) 0)))
       \<le> 640
   \<and> fst (player_size example_assets) \<le> 640
   \<and> (let g = main_loop [keys_left, keys_left] (init example_assets (\<lambda>_. 0));
           r = rect (store g (player g))
       in 0 \<le> left r \<and> right r \<le> 640)"
  using Player_move_clamped [of "Player (Rect 2147483000 450 40 30) 0 False 450 (- 1) 0" 1
      example_assets "[keys_left, keys_left]" "\<lambda>_. 0"]
  by (simp add: example_assets_def Let_def clamp_def clamp1_def set_top_def move_def
      SCREENRECT_def Player_speed_def c_int_def)

text \<open>The bound on the width is needed: an image wider than the play-field is centred on
  it by \<open>clamp\<close> and sticks out on both sides.\<close>

lemma Player_move_wider_than_screen:
  "left (rect (Player_move 0 (Player (Rect 0 450 700 30) 0 False 450 (- 1) 0))) = - 30
   \<and> right (rect (Player_move 0 (Player (Rect 0 450 700 30) 0 False 450 (- 1) 0))) = 670"
  by (simp add: Let_def clamp_def clamp1_def set_top_def move_def right_def SCREENRECT_def)

text \<open>
  C7. After \<open>Player.move\<close> the top edge of the player's rectangle is the original top
  minus \<open>(left div 24) mod 2\<close>, with the left edge the move has just set and the floor
  division and modulo of the integers. The original top never changes, so after every
  tick the top edge is this function of the left edge.
\<close>

theorem Player_move_bounce:
  "top_edge (rect (Player_move d (Player r i rl ot fc fr))) =
     ot - (left (rect (Player_move d (Player r i rl ot fc fr))) div 24 mod 2)
   \<and> (wf g \<longrightarrow>
        (let p = store (tick k g) (player g)
         in origtop p = origtop (store g (player g))
            \<and> top_edge (rect p) = origtop p - (left (rect p) div 24 mod 2)))"
proof (intro conjI impI)
  show "top_edge (rect (Player_move d (Player r i rl ot fc fr))) =
     ot - (left (rect (Player_move d (Player r i rl ot fc fr))) div 24 mod 2)"
    using Player_move_top [of "Player r i rl ot fc fr" d] by simp
next
  assume w: "wf g"
  show "let p = store (tick k g) (player g)
        in origtop p = origtop (store g (player g))
           \<and> top_edge (rect p) = origtop p - (left (rect p) div 24 mod 2)"
    using update_all_player_rect [OF w]
      Player_move_top [of "store (update_all g) (player g)" "direction k"]
    by (simp add: tick_store_player [OF w] Let_def)
qed

theorem Player_move_bounce_witness:
  "wf (init example_assets (\<lambda>_. 0))
   \<and> (let p = store (tick keys_left (init example_assets (\<lambda>_. 0))) 0
      in origtop p = 450 \<and> left (rect p) = 290 \<and> top_edge (rect p) = 450)"
proof -
  have "left (rect (store (tick keys_left (init example_assets (\<lambda>_. 0))) 0)) = 290"
    by code_simp
  moreover have "origtop (store (init example_assets (\<lambda>_. 0)) 0) = 450"
    by code_simp
  moreover have "player (init example_assets (\<lambda>_. 0)) = 0"
    by code_simp
  ultimately show ?thesis
    using Player_move_bounce [of 0 "Rect 0 0 0 0" 0 False 0 0 0 "init example_assets (\<lambda>_. 0)"
      keys_left] wf_init [of example_assets "\<lambda>_. 0"]
    by (simp add: Let_def)
qed

subsection \<open>Killing the sprites that collide\<close>

lemma fold_kill_fields [simp]:
  "cfg (fold kill cs g) = cfg g" "store (fold kill cs g) = store g"
  "next_id (fold kill cs g) = next_id g" "player (fold kill cs g) = player g"
  "SCORE (fold kill cs g) = SCORE g" "enemyreload (fold kill cs g) = enemyreload g"
  "rng (fold kill cs g) = rng g" "rng_pos (fold kill cs g) = rng_pos g"
  "dirty (fold kill cs g) = dirty g"
  by (induction cs arbitrary: g) simp_all

lemma fold_kill_groups:
  "enemies (fold kill cs g) = filter (\<lambda>e. e \<notin> set cs) (enemies g)"
  "shots (fold kill cs g) = filter (\<lambda>e. e \<notin> set cs) (shots g)"
  "enemy_bullets (fold kill cs g) = filter (\<lambda>e. e \<notin> set cs) (enemy_bullets g)"
  "all (fold kill cs g) = filter (\<lambda>e. fst e \<notin> set cs) (all g)"
  "lastenemy (fold kill cs g) =
     (case lastenemy g of None \<Rightarrow> None | Some e \<Rightarrow> if e \<in> set cs then None else Some e)"
  by (induction cs arbitrary: g)
    (auto simp: removeAll_filter_not_eq split: option.splits intro: filter_cong)

lemma spritecollide_loop_eq:
  "spritecollide_loop r ss g =
     (filter (\<lambda>s. colliderect r (rect (store g s))) ss,
      fold kill (filter (\<lambda>s. colliderect r (rect (store g s))) ss) g)"
  by (induction ss arbitrary: g) simp_all

lemma spritecollide_eq:
  "spritecollide sp grp g =
     (filter (\<lambda>s. colliderect (rect (store g sp)) (rect (store g s))) (grp g),
      fold kill (filter (\<lambda>s. colliderect (rect (store g sp)) (rect (store g s))) (grp g)) g)"
  by (simp add: spritecollide_def spritecollide_loop_eq)

subsection \<open>Enemies against the player\<close>

lemma hit_by_enemy_fields [simp]:
  "cfg (hit_by_enemy e g) = cfg g" "player (hit_by_enemy e g) = player g"
  "next_id (hit_by_enemy e g) = next_id g + 2" "SCORE (hit_by_enemy e g) = SCORE g + 1"
  "enemies (hit_by_enemy e g) = removeAll (player g) (enemies g)"
  "shots (hit_by_enemy e g) = removeAll (player g) (shots g)"
  "enemy_bullets (hit_by_enemy e g) = removeAll (player g) (enemy_bullets g)"
  "rng (hit_by_enemy e g) = rng g" "rng_pos (hit_by_enemy e g) = rng_pos g"
  "enemyreload (hit_by_enemy e g) = enemyreload g"
  "lastenemy (hit_by_enemy e g) = (if lastenemy g = Some (player g) then None else lastenemy g)"
  by (simp_all add: hit_by_enemy_def Let_def)

lemma hit_by_enemy_store:
  "store (hit_by_enemy e g) =
     (store g)(next_id g := Explosion_init (cfg g) (store g e),
               next_id g + 1 := Explosion_init (cfg g)
                 (((store g)(next_id g := Explosion_init (cfg g) (store g e))) (player g)))"
  by (simp add: hit_by_enemy_def Let_def)

lemma hit_by_enemy_all:
  "all (hit_by_enemy e g) =
     filter (\<lambda>x. fst x \<noteq> player g) (all g @ [(next_id g, None), (next_id g + 1, None)])"
  by (simp add: hit_by_enemy_def Let_def)

lemma fold_hit_by_enemy_fields [simp]:
  "cfg (fold hit_by_enemy cs g) = cfg g" "player (fold hit_by_enemy cs g) = player g"
  "next_id (fold hit_by_enemy cs g) = next_id g + 2 * length cs"
  "SCORE (fold hit_by_enemy cs g) = SCORE g + int (length cs)"
  "rng (fold hit_by_enemy cs g) = rng g" "rng_pos (fold hit_by_enemy cs g) = rng_pos g"
  "enemyreload (fold hit_by_enemy cs g) = enemyreload g"
  by (induction cs arbitrary: g) simp_all

lemma fold_hit_by_enemy_groups:
  "player g \<notin> set (enemies g) \<Longrightarrow> enemies (fold hit_by_enemy cs g) = enemies g"
  "player g \<notin> set (shots g) \<Longrightarrow> shots (fold hit_by_enemy cs g) = shots g"
  "player g \<notin> set (enemy_bullets g) \<Longrightarrow>
     enemy_bullets (fold hit_by_enemy cs g) = enemy_bullets g"
  "lastenemy g \<noteq> Some (player g) \<Longrightarrow> lastenemy (fold hit_by_enemy cs g) = lastenemy g"
  by (induction cs arbitrary: g) simp_all

lemma fold_hit_by_enemy_all:
  "player g < next_id g \<Longrightarrow> cs \<noteq> [] \<Longrightarrow>
   map fst (all (fold hit_by_enemy cs g)) =
     filter (\<lambda>i. i \<noteq> player g) (map fst (all g)) @ [next_id g ..< next_id g + 2 * length cs]"
proof (induction cs arbitrary: g)
  case Nil
  then show ?case by simp
next
  case (Cons c cs)
  define g1 where "g1 = hit_by_enemy c g"
  have a1: "map fst (all g1) =
      filter (\<lambda>i. i \<noteq> player g) (map fst (all g)) @ [next_id g, next_id g + 1]"
    using Cons.prems(1) by (simp add: g1_def hit_by_enemy_all filter_map comp_def)
  show ?case
  proof (cases "cs = []")
    case True
    then show ?thesis using a1 by (simp add: g1_def upt_rec)
  next
    case False
    have "map fst (all (fold hit_by_enemy cs g1)) =
        filter (\<lambda>i. i \<noteq> player g1) (map fst (all g1))
        @ [next_id g1 ..< next_id g1 + 2 * length cs]"
      using Cons.prems(1) by (intro Cons.IH [OF _ False]) (simp add: g1_def)
    moreover have "[next_id g ..< next_id g + 2 * length (c # cs)] =
        next_id g # (next_id g + 1) # [next_id g + 2 ..< next_id g + 2 + 2 * length cs]"
      by (simp add: upt_rec)
    ultimately show ?thesis
      using a1 Cons.prems(1) by (simp add: g1_def)
  qed
qed

lemma fold_hit_by_enemy_old:
  "i < next_id g \<Longrightarrow> store (fold hit_by_enemy cs g) i = store g i"
  using extends_store [OF extends_fold [of hit_by_enemy g cs], OF extends_hit_by_enemy] .

lemma fold_hit_by_enemy_new:
  "player g < next_id g \<Longrightarrow> \<forall>c\<in>set cs. c < next_id g \<Longrightarrow>
   map (store (fold hit_by_enemy cs g)) [next_id g ..< next_id g + 2 * length cs] =
     concat (map (\<lambda>e. [Explosion_init (cfg g) (store g e),
                        Explosion_init (cfg g) (store g (player g))]) cs)"
proof (induction cs arbitrary: g)
  case Nil
  then show ?case by simp
next
  case (Cons c cs)
  define g1 where "g1 = hit_by_enemy c g"
  have n1: "next_id g1 = next_id g + 2" by (simp add: g1_def)
  have old: "i < next_id g \<Longrightarrow> store g1 i = store g i" for i
    by (simp add: g1_def hit_by_enemy_store)
  have s0: "store g1 (next_id g) = Explosion_init (cfg g) (store g c)"
    and s1: "store g1 (next_id g + 1) = Explosion_init (cfg g) (store g (player g))"
    using Cons.prems(1) by (simp_all add: g1_def hit_by_enemy_store)
  have ih: "map (store (fold hit_by_enemy cs g1)) [next_id g1 ..< next_id g1 + 2 * length cs] =
     concat (map (\<lambda>e. [Explosion_init (cfg g1) (store g1 e),
                        Explosion_init (cfg g1) (store g1 (player g1))]) cs)"
    using Cons.prems by (intro Cons.IH) (auto simp: g1_def)
  have eq: "concat (map (\<lambda>e. [Explosion_init (cfg g1) (store g1 e),
                        Explosion_init (cfg g1) (store g1 (player g1))]) cs) =
        concat (map (\<lambda>e. [Explosion_init (cfg g) (store g e),
                        Explosion_init (cfg g) (store g (player g))]) cs)"
    using Cons.prems old by (intro arg_cong [where f = concat] map_cong) (simp_all add: g1_def)
  have keep: "store (fold hit_by_enemy cs g1) (next_id g) = store g1 (next_id g)"
    "store (fold hit_by_enemy cs g1) (next_id g + 1) = store g1 (next_id g + 1)"
    by (simp_all add: fold_hit_by_enemy_old n1)
  have "[next_id g ..< next_id g + 2 * length (c # cs)] =
        next_id g # (next_id g + 1) # [next_id g + 2 ..< next_id g + 2 + 2 * length cs]"
    by (simp add: upt_rec)
  then show ?case
    using ih eq keep s0 s1 by (simp add: g1_def [symmetric] n1)
qed

lemma player_vs_enemies_eq:
  "player_vs_enemies g =
     (let crashed = filter (\<lambda>e. colliderect (rect (store g (player g))) (rect (store g e)))
                      (enemies g)
      in fold hit_by_enemy crashed (fold kill crashed g))"
  by (simp add: player_vs_enemies_def spritecollide_eq Let_def)

lemma wf_groups:
  assumes "wf g"
  shows "player g \<notin> set (enemies g)" "player g \<notin> set (shots g)"
    "player g \<notin> set (enemy_bullets g)" "lastenemy g \<noteq> Some (player g)"
    "distinct (enemies g)" "distinct (shots g)" "distinct (enemy_bullets g)"
    "distinct (map fst (all g))"
    "set (enemies g) \<inter> set (shots g) = {}" "set (enemies g) \<inter> set (enemy_bullets g) = {}"
    "set (shots g) \<inter> set (enemy_bullets g) = {}"
    "\<forall>i\<in>set (enemies g). i < next_id g" "\<forall>i\<in>set (shots g). i < next_id g"
    "\<forall>i\<in>set (enemy_bullets g). i < next_id g" "\<forall>i\<in>set (map fst (all g)). i < next_id g"
  using assms by (auto simp: wf_def split: option.splits)

text \<open>
  C10. When \<open>k \<ge> 1\<close> live enemies overlap the player's rectangle, the check of the enemies
  against the player removes all of them from the enemies, leaves them and the player in
  no group, adds \<open>k\<close> to the score and creates \<open>2 * k\<close> objects: for each colliding enemy,
  in order, an explosion centred on the enemy and an explosion centred on the player.
  The new explosions join the group \<open>all\<close>.
\<close>

theorem player_vs_enemies_explosions:
  assumes "wf g"
    and "crashed = filter (\<lambda>e. colliderect (rect (store g (player g))) (rect (store g e)))
                     (enemies g)"
    and "crashed \<noteq> []"
  shows "let g' = player_vs_enemies g; k = length crashed
         in enemies g' = filter (\<lambda>e. e \<notin> set crashed) (enemies g)
            \<and> (\<forall>e\<in>set crashed. \<not> alive e g') \<and> \<not> alive (player g) g'
            \<and> SCORE g' = SCORE g + int k
            \<and> next_id g' = next_id g + 2 * k
            \<and> map (store g') [next_id g ..< next_id g + 2 * k] =
                concat (map (\<lambda>e. [Explosion_init (cfg g) (store g e),
                                   Explosion_init (cfg g) (store g (player g))]) crashed)
            \<and> map fst (all g') =
                filter (\<lambda>i. i \<noteq> player g \<and> i \<notin> set crashed) (map fst (all g))
                @ [next_id g ..< next_id g + 2 * k]"
proof -
  define g1 where "g1 = fold kill crashed g"
  define g' where "g' = fold hit_by_enemy crashed g1"
  note G = wf_groups [OF assms(1)]
  have g': "player_vs_enemies g = g'"
    by (simp add: player_vs_enemies_eq g'_def g1_def assms(2) Let_def)
  have sub: "set crashed \<subseteq> set (enemies g)" by (auto simp: assms(2))
  have lt: "\<forall>c\<in>set crashed. c < next_id g1" using sub G(12) by (auto simp: g1_def)
  have plt: "player g1 < next_id g1" using wf_player_lt [OF assms(1)] by (simp add: g1_def)
  have en: "enemies g' = filter (\<lambda>e. e \<notin> set crashed) (enemies g)"
    using G(1) by (simp add: g'_def fold_hit_by_enemy_groups g1_def fold_kill_groups)
  have sh: "shots g' = filter (\<lambda>e. e \<notin> set crashed) (shots g)"
    using G(2) by (simp add: g'_def fold_hit_by_enemy_groups g1_def fold_kill_groups)
  have eb: "enemy_bullets g' = filter (\<lambda>e. e \<notin> set crashed) (enemy_bullets g)"
    using G(3) by (simp add: g'_def fold_hit_by_enemy_groups g1_def fold_kill_groups)
  have le: "lastenemy g' =
      (case lastenemy g of None \<Rightarrow> None
       | Some e \<Rightarrow> if e \<in> set crashed then None else Some e)"
  proof -
    have "lastenemy g1 \<noteq> Some (player g1)"
      using G(4) by (auto simp: g1_def fold_kill_groups split: option.splits)
    then have "lastenemy g' = lastenemy g1"
      by (simp add: g'_def fold_hit_by_enemy_groups)
    then show ?thesis by (simp add: g1_def fold_kill_groups)
  qed
  have al: "map fst (all g') =
      filter (\<lambda>i. i \<noteq> player g \<and> i \<notin> set crashed) (map fst (all g))
      @ [next_id g ..< next_id g + 2 * length crashed]"
    using fold_hit_by_enemy_all [OF plt assms(3)]
    by (simp add: g'_def g1_def fold_kill_groups filter_map comp_def conj_commute)
  have new: "map (store g') [next_id g ..< next_id g + 2 * length crashed] =
      concat (map (\<lambda>e. [Explosion_init (cfg g) (store g e),
                         Explosion_init (cfg g) (store g (player g))]) crashed)"
    using fold_hit_by_enemy_new [OF plt lt] by (simp add: g'_def g1_def)
  have dead: "\<not> alive e g'" if "e \<in> set crashed \<or> e = player g" for e
  proof -
    have "e < next_id g" using that sub G(12) wf_player_lt [OF assms(1)] by auto
    moreover have "e \<notin> set (enemies g')" using that G(1) by (auto simp: en)
    moreover have "e \<notin> set (shots g')" using that G(2) by (auto simp: sh)
    moreover have "e \<notin> set (enemy_bullets g')" using that G(3) by (auto simp: eb)
    moreover have "lastenemy g' \<noteq> Some e" using that G(4) by (auto simp: le split: option.splits)
    moreover have "e \<notin> set (map fst (all g'))" using that calculation(1) by (auto simp: al)
    ultimately show ?thesis by (simp add: alive_def)
  qed
  show ?thesis
    unfolding g' Let_def using en dead al new by (simp add: g'_def g1_def)
qed

theorem player_vs_enemies_explosions_witness:
  "wf g_crash
   \<and> filter (\<lambda>e. colliderect (rect (store g_crash (player g_crash))) (rect (store g_crash e)))
        (enemies g_crash) = [1, 2]
   \<and> (let g' = player_vs_enemies g_crash
      in enemies g' = [3] \<and> \<not> alive 1 g' \<and> \<not> alive 2 g' \<and> \<not> alive 0 g'
         \<and> SCORE g' = 7 \<and> next_id g' = 8
         \<and> map (store g') [4, 5, 6, 7] =
             [Explosion (Rect 300 445 20 20) 0 12, Explosion (Rect 310 455 20 20) 0 12,
              Explosion (Rect 330 450 20 20) 0 12, Explosion (Rect 310 455 20 20) 0 12]
         \<and> map fst (all g') = [3, 4, 5, 6, 7])"
proof -
  have w: "wf g_crash"
    by (simp add: wf_def g_crash_def)
  have c: "[1, 2] = filter
      (\<lambda>e. colliderect (rect (store g_crash (player g_crash))) (rect (store g_crash e)))
      (enemies g_crash)"
    by (simp add: g_crash_def colliderect_def right_def bottom_def)
  have u: "[4 ..< 8] = [4, 5, 6, 7::nat]" by (simp add: upt_rec)
  show ?thesis
    using player_vs_enemies_explosions [OF w c] w c [symmetric] u
    by (simp add: Let_def g_crash_def example_assets_def Explosion_init_def
        get_rect_center_def center_def centerx_def centery_def Explosion_defaultlife_def)
qed

subsection \<open>Shots against enemies\<close>

lemma groupcollide_loop_fields [simp]:
  "cfg (snd (groupcollide_loop as grp g)) = cfg g"
  "store (snd (groupcollide_loop as grp g)) = store g"
  "next_id (snd (groupcollide_loop as grp g)) = next_id g"
  "player (snd (groupcollide_loop as grp g)) = player g"
  "SCORE (snd (groupcollide_loop as grp g)) = SCORE g"
  "rng (snd (groupcollide_loop as grp g)) = rng g"
  "rng_pos (snd (groupcollide_loop as grp g)) = rng_pos g"
  "enemyreload (snd (groupcollide_loop as grp g)) = enemyreload g"
  by (induction as arbitrary: g) (simp_all add: split_beta spritecollide_eq)

lemma groupcollide_loop_keys:
  "set (map fst (fst (groupcollide_loop as grp g))) \<subseteq> set as"
  by (induction as arbitrary: g) (auto simp: split_beta)

lemma groupcollide_loop_keys_distinct:
  "distinct as \<Longrightarrow> distinct (map fst (fst (groupcollide_loop as grp g)))"
proof (induction as arbitrary: g)
  case Nil
  then show ?case by simp
next
  case (Cons a as)
  have "a \<notin> set (map fst (fst (groupcollide_loop as grp g')))" for g'
    using groupcollide_loop_keys [of as grp g'] Cons.prems by auto
  then show ?case using Cons by (simp add: split_beta)
qed

lemma filter_other:
  "set xs \<inter> set ys = {} \<Longrightarrow> filter (\<lambda>e. e \<in> set ys \<longrightarrow> \<not> P e) xs = xs"
  by (auto simp: filter_id_conv)

text \<open>The shots are no enemies, so killing shots leaves the enemies as they are, and the
  enemies that remain are those that are no key of the result.\<close>

lemma groupcollide_loop_enemies:
  "set (shots g) \<inter> set (enemies g) = {} \<Longrightarrow>
   enemies (snd (groupcollide_loop as shots g)) =
     filter (\<lambda>e. e \<notin> set (map fst (fst (groupcollide_loop as shots g)))) (enemies g)"
proof (induction as arbitrary: g)
  case Nil
  then show ?case by simp
next
  case (Cons a as)
  define c where "c = fst (spritecollide a shots g)"
  define g1 where "g1 = snd (spritecollide a shots g)"
  have sc: "spritecollide a shots g = (c, g1)" by (simp add: c_def g1_def)
  have csub: "set c \<subseteq> set (shots g)" by (auto simp: c_def spritecollide_eq)
  have e1: "enemies g1 = enemies g"
    using Cons.prems by (simp add: g1_def spritecollide_eq fold_kill_groups filter_other Int_commute)
  have s1: "set (shots g1) \<subseteq> set (shots g)"
    by (auto simp: g1_def spritecollide_eq fold_kill_groups)
  have d1: "set (shots g1) \<inter> set (enemies g1) = {}" using Cons.prems e1 s1 by auto
  have d2: "set (shots (kill a g1)) \<inter> set (enemies (kill a g1)) = {}" using d1 by auto
  show ?case
    using Cons.IH [OF d1] Cons.IH [OF d2] e1
    by (simp add: sc split_beta removeAll_filter_not_eq conj_commute) (auto intro: filter_cong)
qed

lemma enemy_shot_fields [simp]:
  "cfg (enemy_shot e g) = cfg g" "player (enemy_shot e g) = player g"
  "next_id (enemy_shot e g) = next_id g + 1" "SCORE (enemy_shot e g) = SCORE g + 1"
  "enemies (enemy_shot e g) = enemies g" "shots (enemy_shot e g) = shots g"
  "enemy_bullets (enemy_shot e g) = enemy_bullets g"
  "lastenemy (enemy_shot e g) = lastenemy g"
  "rng (enemy_shot e g) = rng g" "rng_pos (enemy_shot e g) = rng_pos g"
  "enemyreload (enemy_shot e g) = enemyreload g"
  by (simp_all add: enemy_shot_def Let_def)

lemma fold_enemy_shot_fields [simp]:
  "cfg (fold enemy_shot cs g) = cfg g" "player (fold enemy_shot cs g) = player g"
  "next_id (fold enemy_shot cs g) = next_id g + length cs"
  "SCORE (fold enemy_shot cs g) = SCORE g + int (length cs)"
  "enemies (fold enemy_shot cs g) = enemies g" "shots (fold enemy_shot cs g) = shots g"
  "enemy_bullets (fold enemy_shot cs g) = enemy_bullets g"
  "lastenemy (fold enemy_shot cs g) = lastenemy g"
  "rng (fold enemy_shot cs g) = rng g" "rng_pos (fold enemy_shot cs g) = rng_pos g"
  "enemyreload (fold enemy_shot cs g) = enemyreload g"
  by (induction cs arbitrary: g) simp_all

lemma shots_vs_enemies_eq:
  "shots_vs_enemies g =
     fold enemy_shot (map fst (fst (groupcollide enemies shots g)))
       (snd (groupcollide enemies shots g))"
  by (simp add: shots_vs_enemies_def split_beta)

lemma shots_vs_enemies_SCORE:
  "SCORE (shots_vs_enemies g) = SCORE g + int (length (fst (groupcollide enemies shots g)))"
  by (simp add: shots_vs_enemies_eq groupcollide_def)

lemma shots_vs_enemies_enemies:
  "wf g \<Longrightarrow>
   enemies (shots_vs_enemies g) =
     filter (\<lambda>e. e \<notin> set (map fst (fst (groupcollide enemies shots g)))) (enemies g)"
  using wf_groups(9) [of g] groupcollide_loop_enemies [of g "enemies g"]
  by (simp add: shots_vs_enemies_eq groupcollide_def Int_commute)

subsection \<open>Enemy bullets against the player\<close>

lemma hit_by_bullet_fields [simp]:
  "cfg (hit_by_bullet b g) = cfg g" "player (hit_by_bullet b g) = player g"
  "next_id (hit_by_bullet b g) = next_id g + 1" "SCORE (hit_by_bullet b g) = SCORE g"
  "enemies (hit_by_bullet b g) = removeAll (player g) (enemies g)"
  "shots (hit_by_bullet b g) = removeAll (player g) (shots g)"
  "enemy_bullets (hit_by_bullet b g) = removeAll (player g) (enemy_bullets g)"
  "rng (hit_by_bullet b g) = rng g" "rng_pos (hit_by_bullet b g) = rng_pos g"
  "enemyreload (hit_by_bullet b g) = enemyreload g"
  by (simp_all add: hit_by_bullet_def Let_def)

lemma fold_hit_by_bullet_fields [simp]:
  "cfg (fold hit_by_bullet cs g) = cfg g" "player (fold hit_by_bullet cs g) = player g"
  "next_id (fold hit_by_bullet cs g) = next_id g + length cs"
  "SCORE (fold hit_by_bullet cs g) = SCORE g"
  "rng (fold hit_by_bullet cs g) = rng g" "rng_pos (fold hit_by_bullet cs g) = rng_pos g"
  "enemyreload (fold hit_by_bullet cs g) = enemyreload g"
  by (induction cs arbitrary: g) simp_all

lemma fold_hit_by_bullet_groups:
  "player g \<notin> set (enemies g) \<Longrightarrow> enemies (fold hit_by_bullet cs g) = enemies g"
  "player g \<notin> set (shots g) \<Longrightarrow> shots (fold hit_by_bullet cs g) = shots g"
  "player g \<notin> set (enemy_bullets g) \<Longrightarrow>
     enemy_bullets (fold hit_by_bullet cs g) = enemy_bullets g"
  by (induction cs arbitrary: g) simp_all

lemma player_vs_enemy_bullets_eq:
  "player_vs_enemy_bullets g =
     (let crashed = filter (\<lambda>e. colliderect (rect (store g (player g))) (rect (store g e)))
                      (enemy_bullets g)
      in fold hit_by_bullet crashed (fold kill crashed g))"
  by (simp add: player_vs_enemy_bullets_def spritecollide_eq Let_def)

lemma player_vs_enemy_bullets_SCORE: "SCORE (player_vs_enemy_bullets g) = SCORE g"
  by (simp add: player_vs_enemy_bullets_eq Let_def)

lemma player_vs_enemy_bullets_enemies:
  "wf g \<Longrightarrow> enemies (player_vs_enemy_bullets g) = enemies g"
  using wf_groups(1,10) [of g]
  by (simp add: player_vs_enemy_bullets_eq Let_def fold_hit_by_bullet_groups fold_kill_groups
      filter_other)

lemma player_vs_enemies_SCORE:
  "SCORE (player_vs_enemies g) =
     SCORE g + int (length (filter
       (\<lambda>e. colliderect (rect (store g (player g))) (rect (store g e))) (enemies g)))"
  by (simp add: player_vs_enemies_eq Let_def)

lemma player_vs_enemies_enemies:
  "wf g \<Longrightarrow>
   enemies (player_vs_enemies g) =
     filter (\<lambda>e. \<not> colliderect (rect (store g (player g))) (rect (store g e))) (enemies g)"
  using wf_groups(1) [of g]
  by (auto simp: player_vs_enemies_eq Let_def fold_hit_by_enemy_groups fold_kill_groups
      intro: filter_cong)

lemma player_vs_enemies_shots:
  "wf g \<Longrightarrow> shots (player_vs_enemies g) = shots g"
  using wf_groups(2,9) [of g]
  by (simp add: player_vs_enemies_eq Let_def fold_hit_by_enemy_groups fold_kill_groups
      filter_other Int_commute)

lemma player_vs_enemies_enemy_bullets:
  "wf g \<Longrightarrow> enemy_bullets (player_vs_enemies g) = enemy_bullets g"
  using wf_groups(3,10) [of g]
  by (simp add: player_vs_enemies_eq Let_def fold_hit_by_enemy_groups fold_kill_groups
      filter_other Int_commute)

subsection \<open>The score\<close>

lemma tick_before_collisions: "tick k g = draw (collisions (before_collisions k g))"
  by (simp add: tick_def before_collisions_def Let_def)

lemma wf_before_collisions: "wf g \<Longrightarrow> wf (before_collisions k g)"
  by (simp add: before_collisions_def wf_shoot_enemy_bullets wf_create_enemy wf_fire
      wf_move_player wf_update_all)

lemma fire_SCORE [simp]: "SCORE (fire f g) = SCORE g"
  by (simp add: fire_def Let_def)

lemma create_enemy_SCORE [simp]: "SCORE (create_enemy g) = SCORE g"
  by (simp add: create_enemy_def random_def Let_def)

lemma shoot_enemy_bullets_SCORE [simp]: "SCORE (shoot_enemy_bullets g) = SCORE g"
  by (simp add: shoot_enemy_bullets_def random_def Let_def split: option.splits)

lemma before_collisions_SCORE [simp]: "SCORE (before_collisions k g) = SCORE g"
  by (simp add: before_collisions_def)

lemma collisions_enemies:
  "wf g \<Longrightarrow> enemies (collisions g) = enemies (shots_vs_enemies (player_vs_enemies g))"
  by (simp add: collisions_def player_vs_enemy_bullets_enemies wf_shots_vs_enemies
      wf_player_vs_enemies)

lemma collisions_SCORE:
  assumes "wf g"
  shows "SCORE (collisions g) =
           SCORE g + int (length (filter (\<lambda>e. e \<notin> set (enemies (collisions g))) (enemies g)))"
proof -
  define P where "P = (\<lambda>e. colliderect (rect (store g (player g))) (rect (store g e)))"
  define g1 where "g1 = player_vs_enemies g"
  define K where "K = map fst (fst (groupcollide enemies shots g1))"
  have w1: "wf g1" by (simp add: g1_def wf_player_vs_enemies assms)
  have d: "distinct (enemies g)" by (rule wf_groups(5) [OF assms])
  have e1: "enemies g1 = filter (\<lambda>e. \<not> P e) (enemies g)"
    by (simp add: g1_def P_def player_vs_enemies_enemies assms)
  have e2: "enemies (collisions g) = filter (\<lambda>e. e \<notin> set K) (enemies g1)"
    by (simp add: collisions_enemies assms g1_def [symmetric] shots_vs_enemies_enemies w1 K_def)
  have Ksub: "set K \<subseteq> set (enemies g1)"
    using groupcollide_loop_keys [of "enemies g1" shots g1] by (simp add: K_def groupcollide_def)
  have Kd: "distinct K"
    using groupcollide_loop_keys_distinct [OF wf_groups(5) [OF w1], of shots g1]
    by (simp add: K_def groupcollide_def)
  have s: "SCORE (collisions g) = SCORE g + int (length (filter P (enemies g))) + int (length K)"
  proof -
    have "SCORE g1 = SCORE g + int (length (filter P (enemies g)))"
      by (simp add: g1_def player_vs_enemies_SCORE P_def)
    then show ?thesis
      by (simp add: collisions_def player_vs_enemy_bullets_SCORE shots_vs_enemies_SCORE
          g1_def [symmetric] K_def)
  qed
  have "set (filter (\<lambda>e. e \<notin> set (enemies (collisions g))) (enemies g)) =
        set (filter P (enemies g)) \<union> set K"
    using Ksub by (auto simp: e2 e1)
  moreover have "set (filter P (enemies g)) \<inter> set K = {}"
    using Ksub by (auto simp: e1)
  ultimately have "card (set (filter (\<lambda>e. e \<notin> set (enemies (collisions g))) (enemies g))) =
        card (set (filter P (enemies g))) + card (set K)"
    by (simp add: card_Un_disjoint)
  moreover have "card (set (filter Q (enemies g))) = length (filter Q (enemies g))" for Q
    using d by (intro distinct_card) simp
  moreover have "card (set K) = length K" using Kd by (rule distinct_card)
  ultimately have "length (filter (\<lambda>e. e \<notin> set (enemies (collisions g))) (enemies g)) =
        length (filter P (enemies g)) + length K"
    by (simp del: set_filter)
  then show ?thesis using s by simp
qed

lemma tick_SCORE:
  assumes "wf g"
  shows "SCORE (tick k g) =
           SCORE g + int (length (filter (\<lambda>e. e \<notin> set (enemies (tick k g)))
                                    (enemies (before_collisions k g))))"
  using collisions_SCORE [OF wf_before_collisions [OF assms, of k]]
  by (simp add: tick_before_collisions)

lemma main_loop_SCORE: "wf g \<Longrightarrow> SCORE g \<le> SCORE (main_loop ks g)"
proof (induction ks arbitrary: g)
  case Nil
  then show ?case by simp
next
  case (Cons k ks)
  have "SCORE g \<le> SCORE (tick k g)" using tick_SCORE [OF Cons.prems, of k] by simp
  moreover have "SCORE (tick k g) \<le> SCORE (main_loop ks (tick k g))"
    by (rule Cons.IH [OF wf_tick [OF Cons.prems]])
  ultimately show ?case by simp
qed

text \<open>
  C1. In every tick the score grows by the number of enemies that are in the group of
  the enemies when the collision checks begin and are no longer there when the tick
  ends; these are the enemies the first two checks destroy, since the check of the
  enemy bullets against the player removes no enemy and leaves the score as it is.
  So the score never decreases, in a tick and over a session.
\<close>

theorem score_counts_destroyed_enemies:
  "wf g \<longrightarrow>
     (let g5 = before_collisions k g;
          destroyed = filter (\<lambda>e. e \<notin> set (enemies (tick k g))) (enemies g5)
      in SCORE (tick k g) = SCORE g + int (length destroyed)
         \<and> SCORE g \<le> SCORE (tick k g)
         \<and> enemies (tick k g) = enemies (shots_vs_enemies (player_vs_enemies g5))
         \<and> SCORE (player_vs_enemy_bullets g) = SCORE g
         \<and> enemies (player_vs_enemy_bullets g) = enemies g
         \<and> SCORE g \<le> SCORE (main_loop ks g))"
proof
  assume w: "wf g"
  show "let g5 = before_collisions k g;
          destroyed = filter (\<lambda>e. e \<notin> set (enemies (tick k g))) (enemies g5)
      in SCORE (tick k g) = SCORE g + int (length destroyed)
         \<and> SCORE g \<le> SCORE (tick k g)
         \<and> enemies (tick k g) = enemies (shots_vs_enemies (player_vs_enemies g5))
         \<and> SCORE (player_vs_enemy_bullets g) = SCORE g
         \<and> enemies (player_vs_enemy_bullets g) = enemies g
         \<and> SCORE g \<le> SCORE (main_loop ks g)"
    using tick_SCORE [OF w, of k] main_loop_SCORE [OF w, of ks]
      collisions_enemies [OF wf_before_collisions [OF w, of k]]
      player_vs_enemy_bullets_enemies [OF w]
    by (simp add: Let_def player_vs_enemy_bullets_SCORE tick_before_collisions)
qed

theorem score_counts_destroyed_enemies_witness:
  "wf g_tick
   \<and> enemies (before_collisions keys_idle g_tick) = [1, 2, 4]
   \<and> enemies (tick keys_idle g_tick) = [4]
   \<and> SCORE g_tick = 5 \<and> SCORE (tick keys_idle g_tick) = 7"
proof -
  have w: "wf g_tick" by (simp add: wf_def g_tick_def)
  have b: "enemies (before_collisions keys_idle g_tick) = [1, 2, 4]" by code_simp
  have a: "enemies (tick keys_idle g_tick) = [4]" by code_simp
  have s: "SCORE g_tick = 5" by (simp add: g_tick_def)
  show ?thesis
    using score_counts_destroyed_enemies [of g_tick keys_idle "[]"] w b a s
    by (simp add: Let_def)
qed

subsection \<open>The order of the checks\<close>

lemma groupcollide_loop_enemy_bullets:
  "set as \<inter> set (enemy_bullets g) = {} \<Longrightarrow> set (shots g) \<inter> set (enemy_bullets g) = {} \<Longrightarrow>
   enemy_bullets (snd (groupcollide_loop as shots g)) = enemy_bullets g"
proof (induction as arbitrary: g)
  case Nil
  then show ?case by simp
next
  case (Cons a as)
  define g1 where "g1 = snd (spritecollide a shots g)"
  have b1: "enemy_bullets g1 = enemy_bullets g"
    using Cons.prems(2) by (simp add: g1_def spritecollide_eq fold_kill_groups filter_other
        Int_commute)
  have s1: "set (shots g1) \<subseteq> set (shots g)"
    by (auto simp: g1_def spritecollide_eq fold_kill_groups)
  have a1: "set as \<inter> set (enemy_bullets g1) = {}" using Cons.prems(1) b1 by auto
  have d1: "set (shots g1) \<inter> set (enemy_bullets g1) = {}" using Cons.prems(2) b1 s1 by auto
  have b2: "enemy_bullets (kill a g1) = enemy_bullets g"
    using Cons.prems(1) b1 by simp
  have a2: "set as \<inter> set (enemy_bullets (kill a g1)) = {}" using a1 b1 b2 by simp
  have d2: "set (shots (kill a g1)) \<inter> set (enemy_bullets (kill a g1)) = {}"
    using d1 b1 b2 by auto
  show ?case
    using Cons.IH [OF a1 d1] Cons.IH [OF a2 d2] b1 b2
    by (simp add: split_beta g1_def)
qed

lemma shots_vs_enemies_enemy_bullets:
  "wf g \<Longrightarrow> enemy_bullets (shots_vs_enemies g) = enemy_bullets g"
  using wf_groups(10,11) [of g] groupcollide_loop_enemy_bullets [of "enemies g" g]
  by (simp add: shots_vs_enemies_eq groupcollide_def)

text \<open>
  C3 does not hold: in \<open>g_both\<close> the shot overlaps the enemy, and a check of the shots
  against the enemies there are when the collision phase begins reports the pair; the
  check of the tick comes after the enemy was destroyed by the player's collision and
  reports nothing, so the shot stays and the score grows by one, not by two.
\<close>

theorem checks_on_start_state_counterexample:
  "fst (groupcollide enemies shots g_both) = [(1, [2])]
   \<and> fst (groupcollide enemies shots (player_vs_enemies g_both)) = []
   \<and> shots (collisions g_both) = [2]
   \<and> SCORE (collisions g_both) = SCORE g_both + 1"
  by code_simp

subsection \<open>Firing\<close>

lemma fire_fields [simp]:
  "cfg (fire f g) = cfg g" "enemies (fire f g) = enemies g"
  "enemy_bullets (fire f g) = enemy_bullets g" "lastenemy (fire f g) = lastenemy g"
  "rng (fire f g) = rng g" "rng_pos (fire f g) = rng_pos g"
  "enemyreload (fire f g) = enemyreload g"
  "shots (fire f g) = (if shoots f g then shots g @ [next_id g] else shots g)"
  "next_id (fire f g) = (if shoots f g then next_id g + 1 else next_id g)"
  by (simp_all add: fire_def Let_def)

lemma fire_new_Shot:
  "shoots f g \<Longrightarrow> store (fire f g) (next_id g) = Shot_init (cfg g) (gunpos (store g (player g)))"
  by (simp add: fire_def Let_def Shot_init_def)

lemma create_enemy_shots [simp]: "shots (create_enemy g) = shots g"
  by (simp add: create_enemy_def random_def Let_def)

lemma shoot_enemy_bullets_shots [simp]: "shots (shoot_enemy_bullets g) = shots g"
  by (simp add: shoot_enemy_bullets_def random_def Let_def split: option.splits)

lemma before_collisions_shots:
  "shots (before_collisions k g) =
     shots (fire (K_SPACE k) (move_player (direction k) (update_all g)))"
  by (simp add: before_collisions_def)

lemma shoots_move_player [simp]: "shoots f (move_player d g) = shoots f g"
  by (simp add: shoots_def)

lemma tick_reloading: "wf g \<Longrightarrow> reloading (store (tick k g) (player g)) = K_SPACE k"
  using update_all_player_rect(1) [of g]
  by (simp add: tick_store_player)

text \<open>
  C4 does not hold as stated: in \<open>g_cap\<close> the reload lock is unset and two shots are
  alive. The fire key is then held for three ticks, and no shot is created, in the tick
  the key goes down or after it: the shots stay the two there were and no object at all
  is created.
\<close>

theorem held_fire_one_shot_counterexample:
  "\<not> reloading (store g_cap (player g_cap)) \<and> K_SPACE keys_fire
   \<and> alive (player g_cap) (main_loop [keys_fire, keys_fire] g_cap)
   \<and> shots (main_loop [keys_fire, keys_fire, keys_fire] g_cap) = shots g_cap
   \<and> next_id (main_loop [keys_fire, keys_fire, keys_fire] g_cap) = next_id g_cap"
  by code_simp

text \<open>
  C4 as amended. The firing step (lines 358 to 363) creates a shot exactly when the
  reload lock is unset, the fire key is held and fewer than 2 shots are alive, and then
  sets the lock to the state of the fire key; so the lock after a tick is the fire key
  of that tick, and a tick that starts with the lock set creates no shot. While the key
  stays held a shot is created at most once, in the tick the key goes down, and there
  only when fewer than 2 shots are alive.
\<close>

theorem fire_contract:
  "(let created = (\<not> reloading (store g (player g)) \<and> f \<and> length (shots g) < 2)
    in shots (fire f g) = (if created then shots g @ [next_id g] else shots g)
       \<and> next_id (fire f g) = (if created then next_id g + 1 else next_id g)
       \<and> (created \<longrightarrow> is_Shot (store (fire f g) (next_id g))))
   \<and> (wf g \<longrightarrow>
        reloading (store (fire f g) (player g)) = f
        \<and> reloading (store (tick k g) (player g)) = K_SPACE k
        \<and> (reloading (store g (player g)) \<longrightarrow>
             shots (before_collisions k g) = shots (update_all g))
        \<and> (K_SPACE k \<longrightarrow>
             shots (before_collisions k' (tick k g)) = shots (update_all (tick k g))))"
proof (intro conjI impI)
  show "let created = (\<not> reloading (store g (player g)) \<and> f \<and> length (shots g) < 2)
    in shots (fire f g) = (if created then shots g @ [next_id g] else shots g)
       \<and> next_id (fire f g) = (if created then next_id g + 1 else next_id g)
       \<and> (created \<longrightarrow> is_Shot (store (fire f g) (next_id g)))"
    using fire_new_Shot [of f g]
    by (auto simp: Let_def shoots_def MAX_SHOTS_def Shot_init_def)
next
  assume w: "wf g"
  show "reloading (store (fire f g) (player g)) = f"
    using wf_is_Player [OF w] by (simp add: fire_store_player [OF w])
  show "reloading (store (tick k g) (player g)) = K_SPACE k"
    by (rule tick_reloading [OF w])
  have locked: "shots (before_collisions j h) = shots (update_all h)"
    if "wf h" "reloading (store h (player h))" for j h
    using that update_all_player_rect(4) [of h]
    by (simp add: before_collisions_shots shoots_def)
  show "shots (before_collisions k g) = shots (update_all g)"
    if "reloading (store g (player g))"
    using locked [OF w that] .
  show "shots (before_collisions k' (tick k g)) = shots (update_all (tick k g))"
    if "K_SPACE k"
    using locked [OF wf_tick [OF w], of k k'] tick_reloading [OF w, of k] that by simp
qed

theorem fire_contract_witness:
  "wf g_tick
   \<and> \<not> reloading (store g_tick (player g_tick)) \<and> length (shots g_tick) < 2
   \<and> shots (fire True g_tick) = [3, 6] \<and> is_Shot (store (fire True g_tick) 6)
   \<and> reloading (store (fire True g_tick) (player g_tick))
   \<and> reloading (store (tick keys_fire g_tick) (player g_tick))
   \<and> K_SPACE keys_fire
   \<and> shots (before_collisions keys_fire (tick keys_fire g_tick)) =
       shots (update_all (tick keys_fire g_tick))"
proof -
  have w: "wf g_tick" by (simp add: wf_def g_tick_def)
  have a: "\<not> reloading (store g_tick (player g_tick))" "length (shots g_tick) < 2"
    "shots g_tick = [3]" "next_id g_tick = 6"
    by (simp_all add: g_tick_def)
  have k: "K_SPACE keys_fire" by (simp add: keys_fire_def)
  show ?thesis
    using fire_contract [of g_tick True keys_fire keys_fire] w a k
    by (simp add: Let_def)
qed

subsection \<open>Enemy bullets\<close>

lemma collisions_rng_pos [simp]: "rng_pos (collisions g) = rng_pos g"
  by (simp add: collisions_def player_vs_enemy_bullets_eq shots_vs_enemies_eq
      player_vs_enemies_eq groupcollide_def Let_def)

lemma py_int_floor: "0 \<le> v \<Longrightarrow> py_int v = \<lfloor>v\<rfloor>"
  by (simp add: py_int_def)

text \<open>
  C5 does not hold: after the first tick from \<open>g_last\<close> the shot has destroyed enemy 3,
  the enemy created last, and enemy 1 is alive. In the second tick the next sample is
  \<open>0\<close>, for which the claim has enemy 1 shoot; the tick draws no sample and creates no
  enemy bullet.
\<close>

theorem enemy_bullet_from_live_enemy_counterexample:
  "enemies (tick keys_idle g_last) = [1]
   \<and> lastenemy (tick keys_idle g_last) = None
   \<and> \<lfloor>rng g_last (rng_pos (tick keys_idle g_last)) * 60\<rfloor> = 0
   \<and> enemies (tick keys_idle (tick keys_idle g_last)) = [1]
   \<and> rng_pos (tick keys_idle (tick keys_idle g_last)) = rng_pos (tick keys_idle g_last)
   \<and> enemy_bullets (tick keys_idle (tick keys_idle g_last)) = []"
  by code_simp

text \<open>
  C5 as amended. \<open>lastenemy\<close> holds one sprite at most: creating an enemy puts it there,
  killing the sprite it holds empties it, and in a well-formed state the sprite it
  holds is a live enemy that was created after all the other live enemies. When
  \<open>lastenemy\<close> is empty the bullet step draws no sample and creates nothing, whatever
  enemies are alive. When it holds an enemy the step draws one sample \<open>u\<close>, and for
  \<open>0 \<le> u\<close> it creates an enemy bullet from that enemy if and only if
  \<open>\<lfloor>u * 60\<rfloor> = 0\<close>. A tick draws the sample of this step and no sample after it.
\<close>

theorem enemy_bullet_from_lastenemy:
  "lastenemy (new_Enemy g) = Some (next_id g)
   \<and> lastenemy (kill s g) = (if lastenemy g = Some s then None else lastenemy g)
   \<and> (wf g \<longrightarrow> (case lastenemy g of None \<Rightarrow> True
        | Some e \<Rightarrow> e \<in> set (enemies g) \<and> (\<forall>i\<in>set (enemies g). i \<le> e)))
   \<and> (lastenemy g = None \<longrightarrow> shoot_enemy_bullets g = g)
   \<and> (lastenemy g = Some e \<and> 0 \<le> rng g (rng_pos g) \<longrightarrow>
        (let g' = shoot_enemy_bullets g
         in rng_pos g' = rng_pos g + 1
            \<and> (if \<lfloor>rng g (rng_pos g) * 60\<rfloor> = 0
                then enemy_bullets g' = enemy_bullets g @ [next_id g]
                     \<and> next_id g' = next_id g + 1
                     \<and> store g' (next_id g) = EnemyBullet_init (cfg g) (store g e)
                else enemy_bullets g' = enemy_bullets g \<and> next_id g' = next_id g)))
   \<and> rng_pos (tick k g) =
       rng_pos (shoot_enemy_bullets (create_enemy (fire (K_SPACE k)
         (move_player (direction k) (update_all g)))))"
proof (intro conjI impI)
  show "lastenemy (new_Enemy g) = Some (next_id g)" by simp
  show "lastenemy (kill s g) = (if lastenemy g = Some s then None else lastenemy g)" by simp
  show "case lastenemy g of None \<Rightarrow> True
        | Some e \<Rightarrow> e \<in> set (enemies g) \<and> (\<forall>i\<in>set (enemies g). i \<le> e)" if "wf g"
    using that by (simp add: wf_def)
  show "shoot_enemy_bullets g = g" if "lastenemy g = None"
    using that by (simp add: shoot_enemy_bullets_def)
  show "let g' = shoot_enemy_bullets g
         in rng_pos g' = rng_pos g + 1
            \<and> (if \<lfloor>rng g (rng_pos g) * 60\<rfloor> = 0
                then enemy_bullets g' = enemy_bullets g @ [next_id g]
                     \<and> next_id g' = next_id g + 1
                     \<and> store g' (next_id g) = EnemyBullet_init (cfg g) (store g e)
                else enemy_bullets g' = enemy_bullets g \<and> next_id g' = next_id g)"
    if "lastenemy g = Some e \<and> 0 \<le> rng g (rng_pos g)"
  proof -
    have "py_int (rng g (rng_pos g) * real_of_int BULLET_ODDS) = \<lfloor>rng g (rng_pos g) * 60\<rfloor>"
      using that by (simp add: py_int_floor BULLET_ODDS_def)
    then show ?thesis
      using that by (simp add: shoot_enemy_bullets_def random_def Let_def)
  qed
  show "rng_pos (tick k g) =
       rng_pos (shoot_enemy_bullets (create_enemy (fire (K_SPACE k)
         (move_player (direction k) (update_all g)))))"
    by (simp add: tick_def Let_def)
qed

theorem enemy_bullet_from_lastenemy_witness:
  "wf g_tick \<and> lastenemy g_tick = Some 4 \<and> 4 \<in> set (enemies g_tick)
   \<and> 0 \<le> rng g_tick (rng_pos g_tick) \<and> \<lfloor>rng g_tick (rng_pos g_tick) * 60\<rfloor> = 30
   \<and> rng_pos (shoot_enemy_bullets g_tick) = 8
   \<and> enemy_bullets (shoot_enemy_bullets g_tick) = enemy_bullets g_tick
   \<and> lastenemy g_cap = None \<and> shoot_enemy_bullets g_cap = g_cap"
proof -
  have w: "wf g_tick" by (simp add: wf_def g_tick_def)
  have a: "lastenemy g_tick = Some 4" "rng g_tick = (\<lambda>_. 1 / 2)"
    "rng_pos g_tick = 7" "enemies g_tick = [1, 2, 4]"
    by (simp_all add: g_tick_def)
  have b: "lastenemy g_cap = None" by (simp add: g_cap_def)
  show ?thesis
    using enemy_bullet_from_lastenemy [of g_tick 0 4 keys_idle]
      enemy_bullet_from_lastenemy [of g_cap 0 0 keys_idle] w a b
    by (simp add: Let_def)
qed

subsection \<open>Animation\<close>

text \<open>
  C8 does not hold for the explosions: their counter is \<open>life\<close>, and \<open>update\<close> takes one
  off it. From 12 it goes to 11 and the image is number \<open>11 div 3 mod 2 = 1\<close>; a counter
  that went up would be 13 and give image \<open>13 div 3 mod 2 = 0\<close>.
\<close>

theorem animation_counter_counterexample:
  "life (fst (update example_assets 0 (Explosion (Rect 300 445 20 20) 0 12))) = 11
   \<and> life (fst (update example_assets 0 (Explosion (Rect 300 445 20 20) 0 12))) \<noteq> 12 + 1
   \<and> image_idx (fst (update example_assets 0 (Explosion (Rect 300 445 20 20) 0 12))) = 1
   \<and> (12 + 1) div Explosion_animcycle mod 2 = 0"
  by (simp add: Let_def Explosion_animcycle_def)

text \<open>
  C8 as amended. \<open>update\<close> adds one to the frame counter of a player or an enemy and
  sets the image to number \<open>frame div 12 mod n\<close> of the \<open>n\<close> images of the class (3 for
  the player, 1 for the enemy); it takes one off the \<open>life\<close> of an explosion and sets
  the image to number \<open>life div 3 mod 2\<close>. In every tick each member of \<open>all\<close> is updated
  once. The player's move, which comes after, keeps the image when the direction is 0
  and replaces it by image 0 or 1 when the player moves left or right.
\<close>

theorem animation_counters:
  "fst (update A sc (Player r i rl ot fc fr)) =
     Player r ((fr + 1) div 12 mod 3) rl ot fc (fr + 1)
   \<and> fst (update A sc (Enemy r i fc fr)) =
       Enemy (move r 0 fc) ((fr + 1) div 12 mod 1) fc (fr + 1)
   \<and> fst (update A sc (Explosion r i lf)) = Explosion r ((lf - 1) div 3 mod 2) (lf - 1)
   \<and> (wf g \<and> sid \<in> fst ` set (all g) \<longrightarrow>
        store (update_all g) sid = fst (update (cfg g) (SCORE g) (store g sid)))
   \<and> image_idx (Player_move d (Player r i rl ot fc fr)) =
       (if d < 0 then 0 else if d > 0 then 1 else i)
   \<and> frame (Player_move d (Player r i rl ot fc fr)) = fr"
  using update_all_store [of g sid]
  by (simp add: Let_def Player_animcycle_def Player_images_len_def Enemy_animcycle_def
      Enemy_images_len_def Explosion_animcycle_def)

theorem animation_counters_witness:
  "wf g_tick \<and> 1 \<in> fst ` set (all g_tick)
   \<and> store g_tick 1 = Enemy (Rect 290 435 40 30) 0 5 97
   \<and> store (update_all g_tick) 1 = Enemy (Rect 290 440 40 30) 0 5 98"
proof -
  have w: "wf g_tick" by (simp add: wf_def g_tick_def)
  have a: "1 \<in> fst ` set (all g_tick)" "store g_tick 1 = Enemy (Rect 290 435 40 30) 0 5 97"
    by (simp_all add: g_tick_def)
  show ?thesis
    using animation_counters [of example_assets 5 "Rect 290 435 40 30" 0 False 0 5 97 0
        g_tick 1 0] w a
    by (simp add: g_tick_def move_def Let_def Enemy_animcycle_def Enemy_images_len_def)
qed

subsection \<open>The dirty rectangles\<close>

lemma colliderect_self: "rect_bool r \<Longrightarrow> colliderect r r"
  by (auto simp: colliderect_def rect_bool_def right_def bottom_def min_def max_def)

lemma union_rect_self [simp]: "union_rect r r = r"
  by (cases r) (simp add: union_rect_def Let_def right_def bottom_def)

lemma draw_sprite_same:
  "snd e = Some (blit_sprite A (st (fst e))) \<Longrightarrow> draw_sprite A st e = [blit_sprite A (st (fst e))]"
  by (simp add: draw_sprite_def Let_def colliderect_self)

lemma draw_sprite_nonempty: "draw_sprite A st e \<noteq> []"
  by (simp add: draw_sprite_def Let_def split: option.splits)

lemma draw_loop_dirty:
  "fst (draw_loop A st es acc) = acc @ concat (map (draw_sprite A st) es)"
  by (induction es arbitrary: acc) (simp_all add: split_beta)

lemma draw_dirty:
  "dirty (draw g) = lostsprites g @ concat (map (draw_sprite (cfg g) (store g)) (all g))"
  by (simp add: draw_def split_beta draw_loop_dirty)

lemma draw_loop_spritedict:
  "snd (draw_loop A st es acc) = map (\<lambda>e. (fst e, Some (blit_sprite A (st (fst e))))) es"
  by (induction es arbitrary: acc) (simp_all add: split_beta)

lemma draw_all: "all (draw g) = map (\<lambda>e. (fst e, Some (blit_sprite (cfg g) (store g (fst e))))) (all g)"
  by (simp add: draw_def split_beta draw_loop_spritedict)

text \<open>
  C9 does not hold: from \<open>g_still\<close> two ticks run with no key held. Between the state
  after the first and the state after the second tick no rectangle and no image has
  changed and the members of \<open>all\<close> are the same, and the second tick passes the
  rectangles of the player and of the score to \<^verbatim>\<open>pg.display.update\<close>.
\<close>

theorem dirty_empty_counterexample:
  "map fst (all (tick keys_idle (tick keys_idle g_still))) =
     map fst (all (tick keys_idle g_still))
   \<and> rect (store (tick keys_idle (tick keys_idle g_still)) 0) =
       rect (store (tick keys_idle g_still) 0)
   \<and> image_idx (store (tick keys_idle (tick keys_idle g_still)) 0) =
       image_idx (store (tick keys_idle g_still) 0)
   \<and> store (tick keys_idle (tick keys_idle g_still)) 1 = store (tick keys_idle g_still) 1
   \<and> dirty (tick keys_idle (tick keys_idle g_still)) =
       [Rect 300 450 40 30, Rect 10 450 60 14]"
  by code_simp

subsection \<open>The collision phase in terms of its first state\<close>

lemma fold_enemy_shot_old:
  "i < next_id g \<Longrightarrow> store (fold enemy_shot cs g) i = store g i"
  using extends_store [OF extends_fold [of enemy_shot g cs], OF extends_enemy_shot] .

lemma fold_enemy_shot_new:
  "\<forall>c\<in>set cs. c < next_id g \<Longrightarrow>
   map (store (fold enemy_shot cs g)) [next_id g ..< next_id g + length cs] =
     map (\<lambda>e. Explosion_init (cfg g) (store g e)) cs"
proof (induction cs arbitrary: g)
  case Nil
  then show ?case by simp
next
  case (Cons c cs)
  define g1 where "g1 = enemy_shot c g"
  have n1: "next_id g1 = next_id g + 1" by (simp add: g1_def)
  have old: "i < next_id g \<Longrightarrow> store g1 i = store g i" for i
    by (simp add: g1_def enemy_shot_def Let_def)
  have s0: "store g1 (next_id g) = Explosion_init (cfg g) (store g c)"
    by (simp add: g1_def enemy_shot_def Let_def)
  have ih: "map (store (fold enemy_shot cs g1)) [next_id g1 ..< next_id g1 + length cs] =
     map (\<lambda>e. Explosion_init (cfg g1) (store g1 e)) cs"
    using Cons.prems by (intro Cons.IH) (auto simp: g1_def)
  have eq: "map (\<lambda>e. Explosion_init (cfg g1) (store g1 e)) cs =
        map (\<lambda>e. Explosion_init (cfg g) (store g e)) cs"
    using Cons.prems old by (intro map_cong) (simp_all add: g1_def)
  have keep: "store (fold enemy_shot cs g1) (next_id g) = store g1 (next_id g)"
    by (simp add: fold_enemy_shot_old n1)
  have "[next_id g ..< next_id g + length (c # cs)] =
        next_id g # [next_id g + 1 ..< next_id g + 1 + length cs]"
    by (simp add: upt_rec)
  then show ?case
    using ih eq keep s0 by (simp add: g1_def [symmetric] n1)
qed

lemma fold_hit_by_bullet_old:
  "i < next_id g \<Longrightarrow> store (fold hit_by_bullet cs g) i = store g i"
  using extends_store [OF extends_fold [of hit_by_bullet g cs], OF extends_hit_by_bullet] .

lemma fold_hit_by_bullet_new:
  "player g < next_id g \<Longrightarrow>
   map (store (fold hit_by_bullet cs g)) [next_id g ..< next_id g + length cs] =
     map (\<lambda>b. Explosion_init (cfg g) (store g (player g))) cs"
proof (induction cs arbitrary: g)
  case Nil
  then show ?case by simp
next
  case (Cons c cs)
  define g1 where "g1 = hit_by_bullet c g"
  have n1: "next_id g1 = next_id g + 1" by (simp add: g1_def)
  have old: "i < next_id g \<Longrightarrow> store g1 i = store g i" for i
    by (simp add: g1_def hit_by_bullet_def Let_def)
  have s0: "store g1 (next_id g) = Explosion_init (cfg g) (store g (player g))"
    by (simp add: g1_def hit_by_bullet_def Let_def)
  have ih: "map (store (fold hit_by_bullet cs g1)) [next_id g1 ..< next_id g1 + length cs] =
     map (\<lambda>b. Explosion_init (cfg g1) (store g1 (player g1))) cs"
    using Cons.prems by (intro Cons.IH) (simp add: g1_def)
  have eq: "store g1 (player g1) = store g (player g)" "cfg g1 = cfg g"
    using Cons.prems old by (simp_all add: g1_def)
  have keep: "store (fold hit_by_bullet cs g1) (next_id g) = store g1 (next_id g)"
    by (simp add: fold_hit_by_bullet_old n1)
  have "[next_id g ..< next_id g + length (c # cs)] =
        next_id g # [next_id g + 1 ..< next_id g + 1 + length cs]"
    by (simp add: upt_rec)
  then show ?case
    using ih eq keep s0 by (simp add: g1_def [symmetric] n1)
qed

text \<open>The check of the shots against the enemies reports what \<open>shot_hits\<close> tells.\<close>

lemma groupcollide_loop_shot_hits:
  "set as \<inter> set (shots g) = {} \<Longrightarrow>
   fst (groupcollide_loop as shots g) = shot_hits (\<lambda>i. rect (store g i)) as (shots g)
   \<and> shots (snd (groupcollide_loop as shots g)) =
       filter (\<lambda>s. s \<notin> set (concat (map snd (fst (groupcollide_loop as shots g))))) (shots g)"
proof (induction as arbitrary: g)
  case Nil
  then show ?case by simp
next
  case (Cons a as)
  define c where "c = filter (\<lambda>s. colliderect (rect (store g a)) (rect (store g s))) (shots g)"
  define g1 where "g1 = fold kill c g"
  have sc: "spritecollide a shots g = (c, g1)" by (simp add: spritecollide_eq c_def g1_def)
  have s1: "shots g1 = filter (\<lambda>s. s \<notin> set c) (shots g)" by (simp add: g1_def fold_kill_groups)
  have st1: "store g1 = store g" by (simp add: g1_def)
  have a_notin: "a \<notin> set (shots g1)" using Cons.prems by (auto simp: s1)
  have d1: "set as \<inter> set (shots g1) = {}" using Cons.prems by (auto simp: s1)
  define g2 where "g2 = kill a g1"
  have s2: "shots g2 = filter (\<lambda>s. s \<notin> set c) (shots g)"
    using a_notin by (simp add: g2_def s1 [symmetric])
  have st2: "store g2 = store g" by (simp add: g2_def st1)
  have d2: "set as \<inter> set (shots g2) = {}" using d1 by (simp add: s2 s1)
  show ?case
  proof (cases "c = []")
    case True
    then have "shots g1 = shots g" by (simp add: s1)
    then show ?thesis
      using Cons.IH [OF d1] True by (simp add: sc st1 c_def [symmetric] Let_def)
  next
    case False
    obtain cr g3 where r: "groupcollide_loop as shots g2 = (cr, g3)" by fastforce
    have ih: "cr = shot_hits (\<lambda>i. rect (store g i)) as (filter (\<lambda>s. s \<notin> set c) (shots g))"
      "shots g3 = filter (\<lambda>s. s \<notin> set (concat (map snd cr)))
                    (filter (\<lambda>s. s \<notin> set c) (shots g))"
      using Cons.IH [OF d2] by (simp_all add: r st2 s2)
    have res: "groupcollide_loop (a # as) shots g = ((a, c) # cr, g3)"
      using False by (simp add: sc g2_def [symmetric] r)
    have "shots g3 = filter (\<lambda>s. s \<notin> set (concat (map snd ((a, c) # cr)))) (shots g)"
      by (auto simp: ih(2) intro: filter_cong)
    then show ?thesis
      unfolding res using False ih(1) by (simp add: c_def [symmetric] Let_def)
  qed
qed

lemma shot_hits_cong:
  "(\<And>i. i \<in> set es \<union> set ss \<Longrightarrow> R i = R' i) \<Longrightarrow> shot_hits R es ss = shot_hits R' es ss"
proof (induction es arbitrary: ss)
  case Nil
  then show ?case by simp
next
  case (Cons e es)
  have c: "filter (\<lambda>s. colliderect (R e) (R s)) ss = filter (\<lambda>s. colliderect (R' e) (R' s)) ss"
    using Cons.prems by (intro filter_cong) auto
  have "shot_hits R es ss' = shot_hits R' es ss'" if "set ss' \<subseteq> set ss" for ss'
    using that Cons.prems by (intro Cons.IH) auto
  then show ?case using c by (simp add: Let_def)
qed

lemma shot_hits_keys: "set (map fst (shot_hits R es ss)) \<subseteq> set es"
  by (induction es arbitrary: ss) (auto simp: Let_def)

lemma player_vs_enemy_bullets_shots:
  "wf g \<Longrightarrow> shots (player_vs_enemy_bullets g) = shots g"
  using wf_groups(2,11) [of g]
  by (simp add: player_vs_enemy_bullets_eq Let_def fold_hit_by_bullet_groups fold_kill_groups
      filter_other)

lemma player_vs_enemy_bullets_enemy_bullets:
  "wf g \<Longrightarrow>
   enemy_bullets (player_vs_enemy_bullets g) =
     filter (\<lambda>b. \<not> colliderect (rect (store g (player g))) (rect (store g b)))
       (enemy_bullets g)"
  using wf_groups(3) [of g]
  by (auto simp: player_vs_enemy_bullets_eq Let_def fold_hit_by_bullet_groups fold_kill_groups
      intro: filter_cong)

lemma player_vs_enemies_objects:
  assumes "wf g"
  shows "next_id (player_vs_enemies g) =
           next_id g + 2 * length (filter
             (\<lambda>e. colliderect (rect (store g (player g))) (rect (store g e))) (enemies g))"
    and "map (store (player_vs_enemies g)) [next_id g ..< next_id (player_vs_enemies g)] =
           concat (map (\<lambda>e. [Explosion_init (cfg g) (store g e),
                              Explosion_init (cfg g) (store g (player g))])
             (filter (\<lambda>e. colliderect (rect (store g (player g))) (rect (store g e)))
                (enemies g)))"
proof -
  define C where
    "C = filter (\<lambda>e. colliderect (rect (store g (player g))) (rect (store g e))) (enemies g)"
  define g0 where "g0 = fold kill C g"
  have eq: "player_vs_enemies g = fold hit_by_enemy C g0"
    by (simp add: player_vs_enemies_eq Let_def C_def g0_def)
  have plt: "player g0 < next_id g0" using wf_player_lt [OF assms] by (simp add: g0_def)
  have lt: "\<forall>c\<in>set C. c < next_id g0"
    using wf_groups(12) [OF assms] by (auto simp: C_def g0_def)
  show n: "next_id (player_vs_enemies g) =
           next_id g + 2 * length (filter
             (\<lambda>e. colliderect (rect (store g (player g))) (rect (store g e))) (enemies g))"
    by (simp add: eq C_def [symmetric] g0_def)
  show "map (store (player_vs_enemies g)) [next_id g ..< next_id (player_vs_enemies g)] =
           concat (map (\<lambda>e. [Explosion_init (cfg g) (store g e),
                              Explosion_init (cfg g) (store g (player g))])
             (filter (\<lambda>e. colliderect (rect (store g (player g))) (rect (store g e)))
                (enemies g)))"
    unfolding n using fold_hit_by_enemy_new [OF plt lt]
    by (simp add: eq C_def [symmetric] g0_def)
qed

lemma shots_vs_enemies_objects:
  assumes "wf g"
  shows "next_id (shots_vs_enemies g) =
           next_id g + length (fst (groupcollide enemies shots g))"
    and "map (store (shots_vs_enemies g)) [next_id g ..< next_id (shots_vs_enemies g)] =
           map (\<lambda>h. Explosion_init (cfg g) (store g (fst h)))
             (fst (groupcollide enemies shots g))"
proof -
  define K where "K = map fst (fst (groupcollide enemies shots g))"
  define g0 where "g0 = snd (groupcollide enemies shots g)"
  have eq: "shots_vs_enemies g = fold enemy_shot K g0"
    by (simp add: shots_vs_enemies_eq K_def g0_def)
  have f: "next_id g0 = next_id g" "store g0 = store g" "cfg g0 = cfg g"
    by (simp_all add: g0_def groupcollide_def)
  have lt: "\<forall>c\<in>set K. c < next_id g0"
    using groupcollide_loop_keys [of "enemies g" shots g] wf_groups(12) [OF assms]
    by (auto simp: K_def f groupcollide_def)
  show n: "next_id (shots_vs_enemies g) =
           next_id g + length (fst (groupcollide enemies shots g))"
    by (simp add: eq f K_def)
  show "map (store (shots_vs_enemies g)) [next_id g ..< next_id (shots_vs_enemies g)] =
           map (\<lambda>h. Explosion_init (cfg g) (store g (fst h)))
             (fst (groupcollide enemies shots g))"
    unfolding n using fold_enemy_shot_new [OF lt]
    by (simp add: eq f K_def comp_def)
qed

lemma player_vs_enemy_bullets_objects:
  assumes "wf g"
  shows "next_id (player_vs_enemy_bullets g) =
           next_id g + length (filter
             (\<lambda>b. colliderect (rect (store g (player g))) (rect (store g b)))
             (enemy_bullets g))"
    and "map (store (player_vs_enemy_bullets g))
             [next_id g ..< next_id (player_vs_enemy_bullets g)] =
           map (\<lambda>b. Explosion_init (cfg g) (store g (player g)))
             (filter (\<lambda>b. colliderect (rect (store g (player g))) (rect (store g b)))
                (enemy_bullets g))"
proof -
  define C where
    "C = filter (\<lambda>b. colliderect (rect (store g (player g))) (rect (store g b)))
           (enemy_bullets g)"
  define g0 where "g0 = fold kill C g"
  have eq: "player_vs_enemy_bullets g = fold hit_by_bullet C g0"
    by (simp add: player_vs_enemy_bullets_eq Let_def C_def g0_def)
  have plt: "player g0 < next_id g0" using wf_player_lt [OF assms] by (simp add: g0_def)
  show n: "next_id (player_vs_enemy_bullets g) =
           next_id g + length (filter
             (\<lambda>b. colliderect (rect (store g (player g))) (rect (store g b)))
             (enemy_bullets g))"
    by (simp add: eq C_def [symmetric] g0_def)
  show "map (store (player_vs_enemy_bullets g))
             [next_id g ..< next_id (player_vs_enemy_bullets g)] =
           map (\<lambda>b. Explosion_init (cfg g) (store g (player g)))
             (filter (\<lambda>b. colliderect (rect (store g (player g))) (rect (store g b)))
                (enemy_bullets g))"
    unfolding n using fold_hit_by_bullet_new [OF plt]
    by (simp add: eq C_def [symmetric] g0_def)
qed

lemma overlaps_player_fun:
  "overlaps_player g = (\<lambda>i. colliderect (rect (store g (player g))) (rect (store g i)))"
  by (simp add: fun_eq_iff overlaps_player_def)

lemma collisions_from_start:
  assumes "wf g"
  shows "enemies (player_vs_enemies g) = filter (\<lambda>e. \<not> overlaps_player g e) (enemies g)"
    and "fst (groupcollide enemies shots (player_vs_enemies g)) = start_hits g"
    and "enemies (shots_vs_enemies (player_vs_enemies g)) =
           filter (\<lambda>e. e \<notin> set (map fst (start_hits g)))
             (filter (\<lambda>e. \<not> overlaps_player g e) (enemies g))"
    and "shots (shots_vs_enemies (player_vs_enemies g)) =
           filter (\<lambda>s. s \<notin> set (concat (map snd (start_hits g)))) (shots g)"
    and "enemy_bullets (shots_vs_enemies (player_vs_enemies g)) = enemy_bullets g"
    and "fst (spritecollide (player (shots_vs_enemies (player_vs_enemies g))) enemy_bullets
            (shots_vs_enemies (player_vs_enemies g))) =
           filter (overlaps_player g) (enemy_bullets g)"
    and "enemies (collisions g) = enemies (shots_vs_enemies (player_vs_enemies g))"
    and "shots (collisions g) = shots (shots_vs_enemies (player_vs_enemies g))"
    and "enemy_bullets (collisions g) =
           filter (\<lambda>b. \<not> overlaps_player g b) (enemy_bullets g)"
    and "SCORE (collisions g) =
           SCORE g + int (length (filter (overlaps_player g) (enemies g)))
             + int (length (start_hits g))"
    and "next_id (collisions g) =
           next_id g + 2 * length (filter (overlaps_player g) (enemies g))
             + length (start_hits g) + length (filter (overlaps_player g) (enemy_bullets g))"
    and "map (store (collisions g)) [next_id g ..< next_id (collisions g)] =
           concat (map (\<lambda>e. [explosion_of g e, explosion_of g (player g)])
             (filter (overlaps_player g) (enemies g)))
           @ map (\<lambda>h. explosion_of g (fst h)) (start_hits g)
           @ map (\<lambda>b. explosion_of g (player g)) (filter (overlaps_player g) (enemy_bullets g))"
proof -
  define g1 where "g1 = player_vs_enemies g"
  define g2 where "g2 = shots_vs_enemies g1"
  define g3 where "g3 = player_vs_enemy_bullets g2"
  define C1 where "C1 = filter (overlaps_player g) (enemies g)"
  define C3 where "C3 = filter (overlaps_player g) (enemy_bullets g)"
  note G = wf_groups [OF assms]
  have w1: "wf g1" by (simp add: g1_def wf_player_vs_enemies assms)
  have w2: "wf g2" by (simp add: g2_def wf_shots_vs_enemies w1)
  have c: "collisions g = g3" by (simp add: collisions_def g3_def g2_def g1_def)
  have x1: "extends g g1" by (simp add: g1_def extends_player_vs_enemies)
  have x2: "extends g1 g2" by (simp add: g2_def extends_shots_vs_enemies)
  have x3: "extends g2 g3" by (simp add: g3_def extends_player_vs_enemy_bullets)
  have x02: "extends g g2" by (rule extends_trans [OF x1 x2])
  have plt: "player g < next_id g" by (rule wf_player_lt [OF assms])
  \<comment> \<open>the first check\<close>
  have e1: "enemies g1 = filter (\<lambda>e. \<not> overlaps_player g e) (enemies g)"
    by (simp add: g1_def player_vs_enemies_enemies assms overlaps_player_fun)
  have s1: "shots g1 = shots g" by (simp add: g1_def player_vs_enemies_shots assms)
  have b1: "enemy_bullets g1 = enemy_bullets g"
    by (simp add: g1_def player_vs_enemies_enemy_bullets assms)
  have n1: "next_id g1 = next_id g + 2 * length C1"
    using player_vs_enemies_objects(1) [OF assms]
    by (simp add: g1_def C1_def overlaps_player_fun)
  have o1: "map (store g1) [next_id g ..< next_id g1] =
      concat (map (\<lambda>e. [explosion_of g e, explosion_of g (player g)]) C1)"
    using player_vs_enemies_objects(2) [OF assms]
    by (simp add: g1_def C1_def overlaps_player_fun explosion_of_def)
  \<comment> \<open>the second check\<close>
  have h: "fst (groupcollide enemies shots g1) = start_hits g"
  proof -
    have "fst (groupcollide enemies shots g1) =
        shot_hits (\<lambda>i. rect (store g1 i)) (enemies g1) (shots g1)"
      using groupcollide_loop_shot_hits [of "enemies g1" g1] wf_groups(9) [OF w1]
      by (simp add: groupcollide_def)
    also have "\<dots> = shot_hits (\<lambda>i. rect (store g i)) (enemies g1) (shots g1)"
    proof (rule shot_hits_cong)
      fix i assume "i \<in> set (enemies g1) \<union> set (shots g1)"
      then have "i < next_id g" using G(12,13) by (auto simp: e1 s1)
      then show "rect (store g1 i) = rect (store g i)"
        by (simp add: extends_store [OF x1])
    qed
    finally show ?thesis by (simp add: start_hits_def e1 s1)
  qed
  have e2: "enemies g2 = filter (\<lambda>e. e \<notin> set (map fst (start_hits g))) (enemies g1)"
    using shots_vs_enemies_enemies [OF w1] by (simp add: g2_def h)
  have s2: "shots g2 = filter (\<lambda>s. s \<notin> set (concat (map snd (start_hits g)))) (shots g)"
    using groupcollide_loop_shot_hits [of "enemies g1" g1] wf_groups(9) [OF w1] h
    by (simp add: g2_def shots_vs_enemies_eq groupcollide_def s1)
  have b2: "enemy_bullets g2 = enemy_bullets g"
    by (simp add: g2_def shots_vs_enemies_enemy_bullets [OF w1] b1)
  have n2: "next_id g2 = next_id g1 + length (start_hits g)"
    using shots_vs_enemies_objects(1) [OF w1] by (simp add: g2_def h)
  have o2: "map (store g2) [next_id g1 ..< next_id g2] =
      map (\<lambda>h. explosion_of g (fst h)) (start_hits g)"
  proof -
    have "map (\<lambda>h. Explosion_init (cfg g1) (store g1 (fst h))) (start_hits g) =
        map (\<lambda>h. explosion_of g (fst h)) (start_hits g)"
    proof (rule map_cong [OF refl])
      fix x assume "x \<in> set (start_hits g)"
      then have "fst x \<in> set (enemies g)"
        using shot_hits_keys
          [of "\<lambda>i. rect (store g i)" "filter (\<lambda>e. \<not> overlaps_player g e) (enemies g)" "shots g"]
        by (auto simp: start_hits_def)
      then have "fst x < next_id g" using G(12) by auto
      then show "Explosion_init (cfg g1) (store g1 (fst x)) = explosion_of g (fst x)"
        using x1 by (simp add: explosion_of_def extends_store [OF x1] extends_def)
    qed
    then show ?thesis
      using shots_vs_enemies_objects(2) [OF w1] by (simp add: g2_def h)
  qed
  \<comment> \<open>the third check\<close>
  have p2: "player g2 = player g" by (rule extends_player [OF x02])
  have sp2: "store g2 (player g) = store g (player g)"
    by (rule extends_store [OF x02 plt])
  have ov: "colliderect (rect (store g2 (player g2))) (rect (store g2 b)) = overlaps_player g b"
    if "b \<in> set (enemy_bullets g)" for b
  proof -
    have "b < next_id g" using that G(14) by auto
    then show ?thesis by (simp add: p2 sp2 extends_store [OF x02] overlaps_player_fun)
  qed
  have t3: "fst (spritecollide (player g2) enemy_bullets g2) = C3"
    using ov by (simp add: spritecollide_eq b2 C3_def cong: filter_cong)
  have e3: "enemies g3 = enemies g2"
    by (simp add: g3_def player_vs_enemy_bullets_enemies [OF w2])
  have s3: "shots g3 = shots g2"
    by (simp add: g3_def player_vs_enemy_bullets_shots [OF w2])
  have b3: "enemy_bullets g3 = filter (\<lambda>b. \<not> overlaps_player g b) (enemy_bullets g)"
    using ov by (simp add: g3_def player_vs_enemy_bullets_enemy_bullets [OF w2] b2
        cong: filter_cong)
  have n3: "next_id g3 = next_id g2 + length C3"
    using player_vs_enemy_bullets_objects(1) [OF w2] ov
    by (simp add: g3_def b2 C3_def cong: filter_cong)
  have o3: "map (store g3) [next_id g2 ..< next_id g3] =
      map (\<lambda>b. explosion_of g (player g)) C3"
  proof -
    have "cfg g2 = cfg g" using x02 by (simp add: extends_def)
    then show ?thesis
      using player_vs_enemy_bullets_objects(2) [OF w2] ov
      by (simp add: g3_def b2 C3_def p2 sp2 explosion_of_def cong: filter_cong)
  qed
  \<comment> \<open>together\<close>
  have sc: "SCORE g3 = SCORE g + int (length C1) + int (length (start_hits g))"
    using player_vs_enemies_SCORE [of g] shots_vs_enemies_SCORE [of g1]
    by (simp add: g3_def player_vs_enemy_bullets_SCORE g2_def h g1_def [symmetric] C1_def
        overlaps_player_fun)
  have k1: "map (store g3) [next_id g ..< next_id g1] = map (store g1) [next_id g ..< next_id g1]"
    using extends_store [OF extends_trans [OF x2 x3]] by (intro map_cong) simp_all
  have k2: "map (store g3) [next_id g1 ..< next_id g2] = map (store g2) [next_id g1 ..< next_id g2]"
    using extends_store [OF x3] by (intro map_cong) simp_all
  have split: "[next_id g ..< next_id g3] =
      [next_id g ..< next_id g1] @ [next_id g1 ..< next_id g2] @ [next_id g2 ..< next_id g3]"
  proof -
    have a: "[next_id g ..< next_id g2] = [next_id g ..< next_id g1] @ [next_id g1 ..< next_id g2]"
      unfolding n2 by (rule upt_add_eq_append) (simp add: n1)
    have b: "[next_id g ..< next_id g3] = [next_id g ..< next_id g2] @ [next_id g2 ..< next_id g3]"
      unfolding n3 by (rule upt_add_eq_append) (simp add: n1 n2)
    show ?thesis unfolding b a by simp
  qed
  show "enemies (player_vs_enemies g) = filter (\<lambda>e. \<not> overlaps_player g e) (enemies g)"
    using e1 by (simp add: g1_def)
  show "fst (groupcollide enemies shots (player_vs_enemies g)) = start_hits g"
    using h by (simp add: g1_def)
  show "enemies (shots_vs_enemies (player_vs_enemies g)) =
           filter (\<lambda>e. e \<notin> set (map fst (start_hits g)))
             (filter (\<lambda>e. \<not> overlaps_player g e) (enemies g))"
    using e2 e1 by (simp add: g2_def g1_def)
  show "shots (shots_vs_enemies (player_vs_enemies g)) =
           filter (\<lambda>s. s \<notin> set (concat (map snd (start_hits g)))) (shots g)"
    using s2 by (simp add: g2_def g1_def)
  show "enemy_bullets (shots_vs_enemies (player_vs_enemies g)) = enemy_bullets g"
    using b2 by (simp add: g2_def g1_def)
  show "fst (spritecollide (player (shots_vs_enemies (player_vs_enemies g))) enemy_bullets
            (shots_vs_enemies (player_vs_enemies g))) =
           filter (overlaps_player g) (enemy_bullets g)"
    using t3 by (simp add: g2_def g1_def C3_def)
  show "enemies (collisions g) = enemies (shots_vs_enemies (player_vs_enemies g))"
    using e3 by (simp add: c g2_def g1_def)
  show "shots (collisions g) = shots (shots_vs_enemies (player_vs_enemies g))"
    using s3 by (simp add: c g2_def g1_def)
  show "enemy_bullets (collisions g) =
           filter (\<lambda>b. \<not> overlaps_player g b) (enemy_bullets g)"
    using b3 by (simp add: c)
  show "SCORE (collisions g) =
           SCORE g + int (length (filter (overlaps_player g) (enemies g)))
             + int (length (start_hits g))"
    using sc by (simp add: c C1_def)
  show "next_id (collisions g) =
           next_id g + 2 * length (filter (overlaps_player g) (enemies g))
             + length (start_hits g) + length (filter (overlaps_player g) (enemy_bullets g))"
    by (simp add: c n3 n2 n1 C1_def C3_def)
  show "map (store (collisions g)) [next_id g ..< next_id (collisions g)] =
           concat (map (\<lambda>e. [explosion_of g e, explosion_of g (player g)])
             (filter (overlaps_player g) (enemies g)))
           @ map (\<lambda>h. explosion_of g (fst h)) (start_hits g)
           @ map (\<lambda>b. explosion_of g (player g)) (filter (overlaps_player g) (enemy_bullets g))"
    unfolding c split
    using k1 k2 o1 o2 o3 by (simp add: C1_def C3_def)
qed

subsection \<open>What each check finds\<close>

lemma overlapping_enemy_gone:
  assumes "e \<in> set (enemies g)"
    and "colliderect (rect (store g (player g))) (rect (store g e))"
  shows "e \<notin> set (enemies (player_vs_enemies g))"
    and "length (enemies (player_vs_enemies g)) < length (enemies g)"
    and "e \<notin> set (map fst (fst (groupcollide enemies shots (player_vs_enemies g))))"
proof -
  define P where "P = (\<lambda>e. colliderect (rect (store g (player g))) (rect (store g e)))"
  define g1 where "g1 = player_vs_enemies g"
  have sub: "set (enemies g1) \<subseteq> set (filter (\<lambda>e. \<not> P e) (enemies g))"
  proof -
    have "set (enemies (fold hit_by_enemy cs g')) \<subseteq> set (enemies g')" for cs g'
      by (induction cs arbitrary: g') (simp, force)
    then show ?thesis
      unfolding g1_def player_vs_enemies_eq Let_def P_def [symmetric]
      by (fastforce simp: fold_kill_groups)
  qed
  have len: "length (enemies g1) \<le> length (filter (\<lambda>e. \<not> P e) (enemies g))"
  proof -
    have l: "length (enemies (fold hit_by_enemy cs g')) \<le> length (enemies g')" for cs g'
    proof (induction cs arbitrary: g')
      case Nil
      then show ?case by simp
    next
      case (Cons c cs)
      have a: "length (enemies (fold hit_by_enemy cs (hit_by_enemy c g')))
          \<le> length (enemies (hit_by_enemy c g'))"
        by (rule Cons)
      have b: "length (enemies (hit_by_enemy c g')) \<le> length (enemies g')"
        by (simp add: removeAll_filter_not_eq)
      show ?case using order_trans [OF a b] by simp
    qed
    have "enemies (fold kill (filter P (enemies g)) g) = filter (\<lambda>e. \<not> P e) (enemies g)"
      by (auto simp: fold_kill_groups intro: filter_cong)
    then show ?thesis
      using l [of "filter P (enemies g)" "fold kill (filter P (enemies g)) g"]
      by (simp add: g1_def player_vs_enemies_eq Let_def P_def [symmetric])
  qed
  have "length (filter (\<lambda>e. \<not> P e) (enemies g)) < length (enemies g)"
    using assms by (intro length_filter_less [of e]) (simp_all add: P_def)
  then show "length (enemies (player_vs_enemies g)) < length (enemies g)"
    using len by (simp add: g1_def)
  show notin: "e \<notin> set (enemies (player_vs_enemies g))"
    using sub assms by (auto simp: P_def g1_def)
  show "e \<notin> set (map fst (fst (groupcollide enemies shots (player_vs_enemies g))))"
    using groupcollide_loop_keys [of "enemies g1" shots g1] notin
    by (auto simp: groupcollide_def g1_def)
qed

text \<open>
  C2. A check destroys a sprite at once: an enemy that overlaps the player is gone from
  the enemies when the first check returns, so the second check goes through fewer
  enemies and does not report that enemy. In a well-formed state the three checks run
  one after the other on what the one before has left. The first removes the enemies
  that overlap the player. The second is \<open>groupcollide\<close> on the state the first has left:
  it reports only enemies that are still there and removes them. The third removes the
  enemy bullets that overlap the player and no enemy. The score grows by the number of
  enemies the first and the second check have removed, and the explosions are created
  in the order of the checks: for each enemy of the first check one on the enemy and
  one on the player, then one on each enemy of the second check, then one on the player
  for each enemy bullet of the third.
\<close>

theorem destruction_is_immediate:
  "(e \<in> set (enemies g) \<and> colliderect (rect (store g (player g))) (rect (store g e)) \<longrightarrow>
      (let g1 = player_vs_enemies g
       in e \<notin> set (enemies g1)
          \<and> length (enemies g1) < length (enemies g)
          \<and> e \<notin> set (map fst (fst (groupcollide enemies shots g1)))))
   \<and> (wf g \<longrightarrow>
        (let g1 = player_vs_enemies g; g2 = shots_vs_enemies g1; g3 = collisions g;
             crashed = filter (overlaps_player g) (enemies g);
             hit = map fst (fst (groupcollide enemies shots g1));
             struck = filter (overlaps_player g) (enemy_bullets g)
         in enemies g1 = filter (\<lambda>e. e \<notin> set crashed) (enemies g)
            \<and> set hit \<subseteq> set (enemies g1)
            \<and> enemies g2 = filter (\<lambda>e. e \<notin> set hit) (enemies g1)
            \<and> enemies g3 = enemies g2
            \<and> enemy_bullets g3 = filter (\<lambda>b. b \<notin> set struck) (enemy_bullets g)
            \<and> SCORE g3 = SCORE g + int (length crashed) + int (length hit)
            \<and> map (store g3) [next_id g ..< next_id g3] =
                concat (map (\<lambda>e. [explosion_of g e, explosion_of g (player g)]) crashed)
                @ map (explosion_of g) hit
                @ map (\<lambda>b. explosion_of g (player g)) struck))"
proof (intro conjI impI)
  assume "e \<in> set (enemies g) \<and> colliderect (rect (store g (player g))) (rect (store g e))"
  then show "let g1 = player_vs_enemies g
       in e \<notin> set (enemies g1)
          \<and> length (enemies g1) < length (enemies g)
          \<and> e \<notin> set (map fst (fst (groupcollide enemies shots g1)))"
    using overlapping_enemy_gone [of e g] by (simp add: Let_def)
next
  assume w: "wf g"
  note C = collisions_from_start [OF w]
  have e1: "filter (\<lambda>e. \<not> overlaps_player g e) (enemies g) =
      filter (\<lambda>e. e \<notin> set (filter (overlaps_player g) (enemies g))) (enemies g)"
    by (auto intro: filter_cong)
  have b3: "filter (\<lambda>b. \<not> overlaps_player g b) (enemy_bullets g) =
      filter (\<lambda>b. b \<notin> set (filter (overlaps_player g) (enemy_bullets g))) (enemy_bullets g)"
    by (auto intro: filter_cong)
  have sub: "set (map fst (start_hits g)) \<subseteq> set (enemies (player_vs_enemies g))"
    using shot_hits_keys
      [of "\<lambda>i. rect (store g i)" "filter (\<lambda>e. \<not> overlaps_player g e) (enemies g)" "shots g"]
    by (simp add: start_hits_def C(1))
  show "let g1 = player_vs_enemies g; g2 = shots_vs_enemies g1; g3 = collisions g;
             crashed = filter (overlaps_player g) (enemies g);
             hit = map fst (fst (groupcollide enemies shots g1));
             struck = filter (overlaps_player g) (enemy_bullets g)
         in enemies g1 = filter (\<lambda>e. e \<notin> set crashed) (enemies g)
            \<and> set hit \<subseteq> set (enemies g1)
            \<and> enemies g2 = filter (\<lambda>e. e \<notin> set hit) (enemies g1)
            \<and> enemies g3 = enemies g2
            \<and> enemy_bullets g3 = filter (\<lambda>b. b \<notin> set struck) (enemy_bullets g)
            \<and> SCORE g3 = SCORE g + int (length crashed) + int (length hit)
            \<and> map (store g3) [next_id g ..< next_id g3] =
                concat (map (\<lambda>e. [explosion_of g e, explosion_of g (player g)]) crashed)
                @ map (explosion_of g) hit
                @ map (\<lambda>b. explosion_of g (player g)) struck"
    unfolding Let_def C(2)
    using sub e1 b3
    by (simp add: C(1,3,7,9,10,12) comp_def del: set_map)
qed

theorem destruction_is_immediate_witness:
  "wf g_hit \<and> 1 \<in> set (enemies g_hit)
   \<and> colliderect (rect (store g_hit (player g_hit))) (rect (store g_hit 1))
   \<and> filter (overlaps_player g_hit) (enemies g_hit) = [1]
   \<and> filter (overlaps_player g_hit) (enemy_bullets g_hit) = [5]
   \<and> enemies (player_vs_enemies g_hit) = [2, 4]
   \<and> fst (groupcollide enemies shots (player_vs_enemies g_hit)) = [(2, [3])]
   \<and> enemies (shots_vs_enemies (player_vs_enemies g_hit)) = [4]
   \<and> enemies (collisions g_hit) = [4]
   \<and> enemy_bullets (collisions g_hit) = []
   \<and> SCORE (collisions g_hit) = 7
   \<and> next_id (collisions g_hit) = 10
   \<and> map (store (collisions g_hit)) [6, 7, 8, 9] =
       [Explosion (Rect 300 445 20 20) 0 12, Explosion (Rect 310 455 20 20) 0 12,
        Explosion (Rect 110 210 20 20) 0 12, Explosion (Rect 310 455 20 20) 0 12]"
proof -
  have w: "wf g_hit" by (simp add: wf_def g_hit_def)
  have a: "1 \<in> set (enemies g_hit)"
    "colliderect (rect (store g_hit (player g_hit))) (rect (store g_hit 1))"
    by (simp_all add: g_hit_def colliderect_def right_def bottom_def)
  have c: "filter (overlaps_player g_hit) (enemies g_hit) = [1]"
    "filter (overlaps_player g_hit) (enemy_bullets g_hit) = [5]"
    by (simp_all add: g_hit_def overlaps_player_def colliderect_def right_def bottom_def)
  have h: "fst (groupcollide enemies shots (player_vs_enemies g_hit)) = [(2, [3])]"
    by code_simp
  have n: "next_id (collisions g_hit) = 10" by code_simp
  have f: "enemies g_hit = [1, 2, 4]" "enemy_bullets g_hit = [5]" "SCORE g_hit = 5"
    "next_id g_hit = 6" "player g_hit = 0"
    by (simp_all add: g_hit_def)
  have x: "explosion_of g_hit 1 = Explosion (Rect 300 445 20 20) 0 12"
    "explosion_of g_hit 0 = Explosion (Rect 310 455 20 20) 0 12"
    "explosion_of g_hit 2 = Explosion (Rect 110 210 20 20) 0 12"
    by (simp_all add: explosion_of_def g_hit_def example_assets_def Explosion_init_def
        get_rect_center_def center_def centerx_def centery_def Explosion_defaultlife_def)
  have u: "[6 ..< 10] = [6, 7, 8, 9::nat]" by (simp add: upt_rec)
  show ?thesis
    using destruction_is_immediate [of 1 g_hit] w a c h n f x u
    by (simp add: Let_def)
qed

text \<open>
  C3 as amended. The collision phase changes no object, so every check tests the
  rectangles the actors have when the phase begins, and the check of the enemy bullets
  uses the player's rectangle whether or not the player has been destroyed. The
  populations are those the earlier destructions of the tick have left: the first
  check tests every enemy of the start; the second takes, in order, the enemies the
  first has left and tests each against the shots of the start that no enemy before it
  in this check has destroyed (this is \<open>shot_hits\<close>), and it removes the enemies it
  reports and their shots; the third tests every enemy bullet of the start, since no
  check before it removes one, and removes those that overlap the player.
\<close>

theorem checks_on_current_state:
  "wf g \<longrightarrow>
     (let g1 = player_vs_enemies g; g2 = shots_vs_enemies g1;
          hits = shot_hits (\<lambda>i. rect (store g i)) (enemies g1) (shots g)
      in (\<forall>i\<in>{..<next_id g}. store (collisions g) i = store g i)
         \<and> (\<forall>i\<in>{..<next_id g}. store g1 i = store g i \<and> store g2 i = store g i)
         \<and> player g1 = player g \<and> player g2 = player g
         \<and> fst (spritecollide (player g) enemies g) =
             filter (\<lambda>e. colliderect (rect (store g (player g))) (rect (store g e)))
               (enemies g)
         \<and> enemies g1 =
             filter (\<lambda>e. \<not> colliderect (rect (store g (player g))) (rect (store g e)))
               (enemies g)
         \<and> shots g1 = shots g
         \<and> fst (groupcollide enemies shots g1) = hits
         \<and> enemies g2 = filter (\<lambda>e. e \<notin> set (map fst hits)) (enemies g1)
         \<and> shots g2 = filter (\<lambda>s. s \<notin> set (concat (map snd hits))) (shots g)
         \<and> enemy_bullets g2 = enemy_bullets g
         \<and> fst (spritecollide (player g2) enemy_bullets g2) =
             filter (\<lambda>b. colliderect (rect (store g (player g))) (rect (store g b)))
               (enemy_bullets g)
         \<and> enemy_bullets (collisions g) =
             filter (\<lambda>b. \<not> colliderect (rect (store g (player g))) (rect (store g b)))
               (enemy_bullets g)
         \<and> shots (collisions g) = shots g2
         \<and> enemies (collisions g) = enemies g2)"
proof
  assume w: "wf g"
  note C = collisions_from_start [OF w]
  have w1: "wf (player_vs_enemies g)" by (rule wf_player_vs_enemies [OF w])
  have x1: "extends g (player_vs_enemies g)" by (rule extends_player_vs_enemies)
  have x2: "extends g (shots_vs_enemies (player_vs_enemies g))"
    by (rule extends_trans [OF x1 extends_shots_vs_enemies])
  have st: "\<forall>i\<in>{..<next_id g}. store (collisions g) i = store g i"
    using extends_collisions [of g] by (simp add: extends_def)
  have st12: "\<forall>i\<in>{..<next_id g}. store (player_vs_enemies g) i = store g i
      \<and> store (shots_vs_enemies (player_vs_enemies g)) i = store g i"
    using x1 x2 by (simp add: extends_def)
  have p: "player (player_vs_enemies g) = player g"
    "player (shots_vs_enemies (player_vs_enemies g)) = player g"
    using x1 x2 by (simp_all add: extends_def)
  have h: "start_hits g =
      shot_hits (\<lambda>i. rect (store g i)) (enemies (player_vs_enemies g)) (shots g)"
    by (simp add: start_hits_def C(1))
  show "let g1 = player_vs_enemies g; g2 = shots_vs_enemies g1;
          hits = shot_hits (\<lambda>i. rect (store g i)) (enemies g1) (shots g)
      in (\<forall>i\<in>{..<next_id g}. store (collisions g) i = store g i)
         \<and> (\<forall>i\<in>{..<next_id g}. store g1 i = store g i \<and> store g2 i = store g i)
         \<and> player g1 = player g \<and> player g2 = player g
         \<and> fst (spritecollide (player g) enemies g) =
             filter (\<lambda>e. colliderect (rect (store g (player g))) (rect (store g e)))
               (enemies g)
         \<and> enemies g1 =
             filter (\<lambda>e. \<not> colliderect (rect (store g (player g))) (rect (store g e)))
               (enemies g)
         \<and> shots g1 = shots g
         \<and> fst (groupcollide enemies shots g1) = hits
         \<and> enemies g2 = filter (\<lambda>e. e \<notin> set (map fst hits)) (enemies g1)
         \<and> shots g2 = filter (\<lambda>s. s \<notin> set (concat (map snd hits))) (shots g)
         \<and> enemy_bullets g2 = enemy_bullets g
         \<and> fst (spritecollide (player g2) enemy_bullets g2) =
             filter (\<lambda>b. colliderect (rect (store g (player g))) (rect (store g b)))
               (enemy_bullets g)
         \<and> enemy_bullets (collisions g) =
             filter (\<lambda>b. \<not> colliderect (rect (store g (player g))) (rect (store g b)))
               (enemy_bullets g)
         \<and> shots (collisions g) = shots g2
         \<and> enemies (collisions g) = enemies g2"
    unfolding Let_def h [symmetric]
    using st st12 p player_vs_enemies_shots [OF w] C(2,3,4,5,6,7,8,9) C(1)
    by (simp add: spritecollide_eq [of "player g" enemies g] overlaps_player_fun
        del: set_map set_concat)
qed

theorem checks_on_current_state_witness:
  "wf g_two
   \<and> enemies (player_vs_enemies g_two) = [1, 2] \<and> shots g_two = [3]
   \<and> shot_hits (\<lambda>i. rect (store g_two i)) [1, 2] [3] = [(1, [3])]
   \<and> fst (groupcollide enemies shots (player_vs_enemies g_two)) = [(1, [3])]
   \<and> enemies (shots_vs_enemies (player_vs_enemies g_two)) = [2]
   \<and> shots (shots_vs_enemies (player_vs_enemies g_two)) = []
   \<and> enemy_bullets (shots_vs_enemies (player_vs_enemies g_two)) = [4]
   \<and> enemy_bullets (collisions g_two) = []
   \<and> enemies (collisions g_two) = [2]"
proof -
  have w: "wf g_two" by (simp add: wf_def g_two_def)
  have f: "enemies g_two = [1, 2]" "shots g_two = [3]" "enemy_bullets g_two = [4]"
    "player g_two = 0"
    by (simp_all add: g_two_def)
  have r: "rect (store g_two 0) = Rect 300 450 40 30" "rect (store g_two 1) = Rect 100 205 40 30"
    "rect (store g_two 2) = Rect 105 210 40 30" "rect (store g_two 3) = Rect 110 224 4 10"
    "rect (store g_two 4) = Rect 310 449 6 6"
    by (simp_all add: g_two_def)
  have c: "\<not> colliderect (Rect 300 450 40 30) (Rect 100 205 40 30)"
    "\<not> colliderect (Rect 300 450 40 30) (Rect 105 210 40 30)"
    "colliderect (Rect 300 450 40 30) (Rect 310 449 6 6)"
    "colliderect (Rect 100 205 40 30) (Rect 110 224 4 10)"
    by (simp_all add: colliderect_def right_def bottom_def)
  show ?thesis
    using checks_on_current_state [of g_two] w f r c
    by (simp add: Let_def)
qed

subsection \<open>From one draw to the next\<close>

lemma kill_lostsprites [simp]:
  "lostsprites (kill s g) = lostsprites g @ lost_rect (all g) s"
  by (simp add: kill_def)

lemma since_draw_refl: "\<forall>e\<in>set (all g). fst e < next_id g \<Longrightarrow> since_draw g g"
  by (auto simp: since_draw_def filter_id_conv)

lemma since_draw_frame:
  "since_draw g h \<Longrightarrow> all h' = all h \<Longrightarrow> lostsprites h' = lostsprites h \<Longrightarrow>
   next_id h' = next_id h \<Longrightarrow> since_draw g h'"
  by (simp add: since_draw_def)

lemma since_draw_add:
  assumes "since_draw g h" and "all h' = all h @ [(next_id h, None)]"
    and "lostsprites h' = lostsprites h" and "next_id h' = next_id h + 1"
  shows "since_draw g h'"
proof -
  have n: "next_id g \<le> next_id h" using assms(1) by (simp add: since_draw_def)
  have old: "\<forall>e\<in>set (all g). fst e < next_id g" using assms(1) by (simp add: since_draw_def)
  have f: "filter (\<lambda>e. fst e \<in> fst ` set (all h')) (all g) =
      filter (\<lambda>e. fst e \<in> fst ` set (all h)) (all g)"
    using old n by (intro filter_cong) (auto simp: assms(2))
  obtain L where L: "lostsprites h = lostsprites g @ L"
    "\<forall>r\<in>set L. \<exists>i. (i, Some r) \<in> set (all g) \<and> i \<notin> fst ` set (all h)"
    using assms(1) by (auto simp: since_draw_def)
  have L': "\<forall>r\<in>set L. \<exists>i. (i, Some r) \<in> set (all g) \<and> i \<notin> fst ` set (all h')"
  proof
    fix r assume "r \<in> set L"
    then obtain i where i: "(i, Some r) \<in> set (all g)" "i \<notin> fst ` set (all h)"
      using L(2) by blast
    then have "i < next_id g" using old by force
    then have "i \<notin> fst ` set (all h')" using i(2) n by (auto simp: assms(2))
    then show "\<exists>i. (i, Some r) \<in> set (all g) \<and> i \<notin> fst ` set (all h')" using i(1) by blast
  qed
  show ?thesis
    unfolding since_draw_def
    using assms(1) n old f L(1) L'
    by (auto simp: assms(2,3,4) since_draw_def)
qed

lemma since_draw_kill:
  assumes "since_draw g h"
  shows "since_draw g (kill s h)"
proof -
  have n: "next_id g \<le> next_id h" using assms by (simp add: since_draw_def)
  have old: "\<forall>e\<in>set (all g). fst e < next_id g" using assms by (simp add: since_draw_def)
  have new: "\<forall>e\<in>set (all h). next_id g \<le> fst e \<longrightarrow> snd e = None"
    using assms by (simp add: since_draw_def)
  have fl: "filter (\<lambda>e. fst e < next_id g) (all h) =
      filter (\<lambda>e. fst e \<in> fst ` set (all h)) (all g)"
    using assms by (simp add: since_draw_def)
  obtain L where L: "lostsprites h = lostsprites g @ L"
    "\<forall>r\<in>set L. \<exists>i. (i, Some r) \<in> set (all g) \<and> i \<notin> fst ` set (all h)"
    using assms by (auto simp: since_draw_def)
  have m: "fst ` set (all (kill s h)) = fst ` set (all h) - {s}"
    by (auto simp: image_iff)
  have f1: "filter (\<lambda>e. fst e < next_id g) (all (kill s h)) =
      filter (\<lambda>e. fst e \<in> fst ` set (all (kill s h))) (all g)"
  proof -
    have "filter (\<lambda>e. fst e < next_id g) (all (kill s h)) =
        filter (\<lambda>e. fst e \<noteq> s) (filter (\<lambda>e. fst e < next_id g) (all h))"
      by (simp add: conj_commute)
    also have "\<dots> = filter (\<lambda>e. fst e \<noteq> s) (filter (\<lambda>e. fst e \<in> fst ` set (all h)) (all g))"
      by (simp only: fl)
    also have "\<dots> = filter (\<lambda>e. fst e \<in> fst ` set (all (kill s h))) (all g)"
      unfolding m by (auto intro: filter_cong)
    finally show ?thesis .
  qed
  have lr: "\<forall>r\<in>set (lost_rect (all h) s).
      \<exists>i. (i, Some r) \<in> set (all g) \<and> i \<notin> fst ` set (all (kill s h))"
  proof
    fix r assume "r \<in> set (lost_rect (all h) s)"
    then have "map_of (all h) s = Some (Some r)"
      by (auto simp: lost_rect_def split: option.splits if_splits)
    then have in_h: "(s, Some r) \<in> set (all h)" by (rule map_of_SomeD)
    then have "s < next_id g" using new by force
    then have "(s, Some r) \<in> set (filter (\<lambda>e. fst e < next_id g) (all h))" using in_h by simp
    then have "(s, Some r) \<in> set (all g)" unfolding fl by simp
    then show "\<exists>i. (i, Some r) \<in> set (all g) \<and> i \<notin> fst ` set (all (kill s h))"
      unfolding m by blast
  qed
  have L': "\<forall>r\<in>set L. \<exists>i. (i, Some r) \<in> set (all g) \<and> i \<notin> fst ` set (all (kill s h))"
    using L(2) unfolding m by blast
  have "\<exists>L'. lostsprites (kill s h) = lostsprites g @ L'
      \<and> (\<forall>r\<in>set L'. \<exists>i. (i, Some r) \<in> set (all g) \<and> i \<notin> fst ` set (all (kill s h)))"
  proof (intro exI conjI)
    show "lostsprites (kill s h) = lostsprites g @ (L @ lost_rect (all h) s)"
      by (simp add: L(1))
    show "\<forall>r\<in>set (L @ lost_rect (all h) s).
        \<exists>i. (i, Some r) \<in> set (all g) \<and> i \<notin> fst ` set (all (kill s h))"
      using L' lr by auto
  qed
  moreover have "\<forall>e\<in>set (all (kill s h)). next_id g \<le> fst e \<longrightarrow> snd e = None"
    using new by simp
  ultimately show ?thesis
    unfolding since_draw_def using n old f1 by simp
qed

lemma since_draw_new:
  "since_draw g h \<Longrightarrow> since_draw g (new_Explosion a h)"
  "since_draw g h \<Longrightarrow> since_draw g (new_Shot pos h)"
  "since_draw g h \<Longrightarrow> since_draw g (new_EnemyBullet e h)"
  "since_draw g h \<Longrightarrow> since_draw g (new_Enemy h)"
  by (erule since_draw_add; simp)+

lemma since_draw_update_sprite: "since_draw g h \<Longrightarrow> since_draw g (update_sprite sid h)"
proof -
  assume a: "since_draw g h"
  obtain s k where u: "update (cfg h) (SCORE h) (store h sid) = (s, k)" by fastforce
  have "since_draw g (h\<lparr>store := (store h)(sid := s)\<rparr>)"
    by (rule since_draw_frame [OF a]) simp_all
  then show ?thesis
    using u by (simp add: update_sprite_def Let_def since_draw_kill)
qed

lemma since_draw_update_all: "since_draw g h \<Longrightarrow> since_draw g (update_all h)"
proof -
  have "since_draw g h \<Longrightarrow> since_draw g (fold update_sprite ids h)" for ids
    by (induction ids arbitrary: h) (simp_all add: since_draw_update_sprite)
  then show "since_draw g h \<Longrightarrow> since_draw g (update_all h)"
    by (simp add: update_all_def)
qed

lemma since_draw_move_player: "since_draw g h \<Longrightarrow> since_draw g (move_player d h)"
  by (erule since_draw_frame) simp_all

lemma since_draw_fire: "since_draw g h \<Longrightarrow> since_draw g (fire f h)"
proof -
  assume a: "since_draw g h"
  define h1 where "h1 = (if shoots f h then new_Shot (gunpos (store h (player h))) h else h)"
  have a1: "since_draw g h1" using a by (simp add: h1_def since_draw_new)
  have "since_draw g
      (h1\<lparr>store := (store h1)(player h1 := set_reloading f (store h1 (player h1)))\<rparr>)"
    by (rule since_draw_frame [OF a1]) simp_all
  then show ?thesis by (simp add: fire_def h1_def Let_def)
qed

lemma since_draw_create_enemy: "since_draw g h \<Longrightarrow> since_draw g (create_enemy h)"
proof -
  assume a: "since_draw g h"
  have a1: "since_draw g (h\<lparr>rng_pos := rng_pos h + 1\<rparr>)"
    by (rule since_draw_frame [OF a]) simp_all
  have a2: "since_draw g ((new_Enemy (h\<lparr>rng_pos := rng_pos h + 1\<rparr>))\<lparr>enemyreload := ENEMY_RELOAD\<rparr>)"
    by (rule since_draw_frame [OF since_draw_new(4) [OF a1]]) simp_all
  have a3: "since_draw g (h\<lparr>enemyreload := enemyreload h - 1\<rparr>)"
    by (rule since_draw_frame [OF a]) simp_all
  show ?thesis using a1 a2 a3 by (simp add: create_enemy_def random_def Let_def)
qed

lemma since_draw_shoot_enemy_bullets:
  "since_draw g h \<Longrightarrow> since_draw g (shoot_enemy_bullets h)"
proof -
  assume a: "since_draw g h"
  have a1: "since_draw g (h\<lparr>rng_pos := rng_pos h + 1\<rparr>)"
    by (rule since_draw_frame [OF a]) simp_all
  have a2: "since_draw g (new_EnemyBullet e (h\<lparr>rng_pos := rng_pos h + 1\<rparr>))" for e
    by (rule since_draw_new(3) [OF a1])
  show ?thesis
    using a a1 a2 by (simp add: shoot_enemy_bullets_def random_def Let_def split: option.splits)
qed

lemma since_draw_fold:
  "(\<And>x h. since_draw g h \<Longrightarrow> since_draw g (f x h)) \<Longrightarrow> since_draw g h \<Longrightarrow>
   since_draw g (fold f xs h)"
  by (induction xs arbitrary: h) simp_all

lemma since_draw_spritecollide:
  "since_draw g h \<Longrightarrow> since_draw g (snd (spritecollide sp grp h))"
  by (simp add: spritecollide_eq since_draw_fold since_draw_kill)

lemma since_draw_groupcollide_loop:
  "since_draw g h \<Longrightarrow> since_draw g (snd (groupcollide_loop as grp h))"
proof (induction as arbitrary: h)
  case Nil
  then show ?case by simp
next
  case (Cons a as)
  obtain c h1 where sc: "spritecollide a grp h = (c, h1)" by fastforce
  have a1: "since_draw g h1" using since_draw_spritecollide [OF Cons.prems, of a grp] sc by simp
  show ?case
    using sc Cons.IH [OF a1] Cons.IH [OF since_draw_kill [OF a1]]
    by (simp add: split_beta)
qed

lemma since_draw_hit_by_enemy: "since_draw g h \<Longrightarrow> since_draw g (hit_by_enemy e h)"
proof -
  assume a: "since_draw g h"
  define h1 where "h1 = new_Explosion e h"
  define h2 where "h2 = new_Explosion (player h1) h1"
  have "since_draw g h2" using a by (simp add: h2_def h1_def since_draw_new)
  then have "since_draw g (h2\<lparr>SCORE := SCORE h2 + 1\<rparr>)"
    by (rule since_draw_frame) simp_all
  then have "since_draw g (kill (player h2) (h2\<lparr>SCORE := SCORE h2 + 1\<rparr>))"
    by (rule since_draw_kill)
  then show ?thesis by (simp add: hit_by_enemy_def Let_def h1_def h2_def)
qed

lemma since_draw_enemy_shot: "since_draw g h \<Longrightarrow> since_draw g (enemy_shot e h)"
proof -
  assume a: "since_draw g h"
  have "since_draw g ((new_Explosion e h)\<lparr>SCORE := SCORE (new_Explosion e h) + 1\<rparr>)"
    by (rule since_draw_frame [OF since_draw_new(1) [OF a]]) simp_all
  then show ?thesis by (simp add: enemy_shot_def Let_def)
qed

lemma since_draw_hit_by_bullet: "since_draw g h \<Longrightarrow> since_draw g (hit_by_bullet b h)"
  by (simp add: hit_by_bullet_def Let_def since_draw_kill since_draw_new)

lemma since_draw_collisions: "since_draw g h \<Longrightarrow> since_draw g (collisions h)"
proof -
  assume a: "since_draw g h"
  have a1: "since_draw g (player_vs_enemies h)"
    unfolding player_vs_enemies_def split_beta Let_def
    by (intro since_draw_fold since_draw_hit_by_enemy since_draw_spritecollide a)
  have a2: "since_draw g (shots_vs_enemies (player_vs_enemies h))"
    unfolding shots_vs_enemies_def groupcollide_def split_beta Let_def
    by (intro since_draw_fold since_draw_enemy_shot since_draw_groupcollide_loop a1)
  show ?thesis
    unfolding collisions_def player_vs_enemy_bullets_def split_beta Let_def
    by (intro since_draw_fold since_draw_hit_by_bullet since_draw_spritecollide a2)
qed

lemma since_draw_before_collisions:
  "since_draw g h \<Longrightarrow> since_draw g (before_collisions k h)"
  by (simp add: before_collisions_def since_draw_shoot_enemy_bullets since_draw_create_enemy
      since_draw_fire since_draw_move_player since_draw_update_all)

lemma tick_drawn:
  "cfg (tick k g) = cfg g" "lostsprites (tick k g) = []"
  "all (tick k g) =
     map (\<lambda>e. (fst e, Some (blit_sprite (cfg g) (store (tick k g) (fst e)))))
       (all (collisions (before_collisions k g)))"
proof -
  have c: "cfg (collisions (before_collisions k g)) = cfg g"
    using extends_collisions [of "before_collisions k g"]
    by (simp add: extends_def before_collisions_def create_enemy_def shoot_enemy_bullets_def
        random_def Let_def split: option.splits)
  show "cfg (tick k g) = cfg g" by (simp add: tick_before_collisions c)
  show "lostsprites (tick k g) = []" by (simp add: tick_before_collisions)
  show "all (tick k g) =
     map (\<lambda>e. (fst e, Some (blit_sprite (cfg g) (store (tick k g) (fst e)))))
       (all (collisions (before_collisions k g)))"
    by (simp add: tick_before_collisions draw_all c)
qed

lemma blit_sprite_cong:
  "rect s = rect s' \<Longrightarrow> image_of s = image_of s' \<Longrightarrow> blit_sprite A s = blit_sprite A s'"
  by (simp add: blit_sprite_def)

text \<open>
  C9 as amended. Take two consecutive ticks, from a well-formed state, in which no actor
  that is in the group \<open>all\<close> after both has moved or changed its image between them.
  The list the second tick passes to \<^verbatim>\<open>pg.display.update\<close> is a list of rectangles on
  which the first tick drew actors that are gone after the second, followed by one
  rectangle for every actor that is in \<open>all\<close> after the second tick, in the order of the
  group: the rectangle its image is blitted to, which for an actor of the first tick is
  the rectangle it was blitted to then. When no actor of the first tick is gone the
  list holds these rectangles only. So the list is empty only when \<open>all\<close> is empty: the
  rectangles of the actors that did not change are flushed again.
\<close>

theorem dirty_of_unchanged_actors:
  "wf g \<longrightarrow>
     (let g1 = tick k g; g2 = tick k' g1
      in (\<forall>i\<in>set (map fst (all g1)) \<inter> set (map fst (all g2)).
            rect (store g2 i) = rect (store g1 i)
            \<and> image_of (store g2 i) = image_of (store g1 i)) \<longrightarrow>
         (\<exists>L. dirty g2 =
                 L @ map (\<lambda>i. blit (cfg g) (image_of (store g2 i)) (rect (store g2 i)))
                       (map fst (all g2))
               \<and> (\<forall>r\<in>set L. \<exists>i. i \<in> set (map fst (all g1)) \<and> i \<notin> set (map fst (all g2))
                     \<and> r = blit (cfg g) (image_of (store g1 i)) (rect (store g1 i)))
               \<and> (set (map fst (all g1)) \<subseteq> set (map fst (all g2)) \<longrightarrow> L = []))
         \<and> (all g2 \<noteq> [] \<longrightarrow> dirty g2 \<noteq> []))"
proof (intro impI, unfold Let_def, intro impI)
  assume w: "wf g"
  define g1 where "g1 = tick k g"
  define h where "h = collisions (before_collisions k' g1)"
  define g2 where "g2 = tick k' g1"
  define A where "A = cfg g"
  assume "\<forall>i\<in>set (map fst (all (tick k g))) \<inter> set (map fst (all (tick k' (tick k g)))).
      rect (store (tick k' (tick k g)) i) = rect (store (tick k g) i)
      \<and> image_of (store (tick k' (tick k g)) i) = image_of (store (tick k g) i)"
  then have same: "\<forall>i\<in>set (map fst (all g1)) \<inter> set (map fst (all g2)).
      rect (store g2 i) = rect (store g1 i) \<and> image_of (store g2 i) = image_of (store g1 i)"
    by (simp add: g1_def g2_def)
  have w1: "wf g1" by (simp add: g1_def wf_tick w)
  have g2: "g2 = draw h" by (simp add: g2_def h_def tick_before_collisions)
  have A1: "cfg g1 = A" by (simp add: g1_def A_def tick_drawn)
  have Ah: "cfg h = A"
  proof -
    have "cfg (draw h) = A" using tick_drawn(1) [of k' g1] by (simp add: g2 [symmetric] g2_def A1)
    then show ?thesis by simp
  qed
  have st: "store g2 = store h" by (simp add: g2)
  have ids: "map fst (all g2) = map fst (all h)" by (simp add: g2)
  have l1: "lostsprites g1 = []" by (simp add: g1_def tick_drawn)
  have a1: "\<forall>e\<in>set (all g1). snd e = Some (blit_sprite A (store g1 (fst e)))"
    by (auto simp: g1_def A_def tick_drawn(3) [of k g])
  have sd: "since_draw g1 h"
    unfolding h_def
    by (intro since_draw_collisions since_draw_before_collisions since_draw_refl)
      (use wf_groups(15) [OF w1] in auto)
  obtain L where L: "lostsprites h = L"
    "\<forall>r\<in>set L. \<exists>i. (i, Some r) \<in> set (all g1) \<and> i \<notin> fst ` set (all h)"
    using sd by (auto simp: since_draw_def l1)
  have new: "\<forall>e\<in>set (all h). next_id g1 \<le> fst e \<longrightarrow> snd e = None"
    using sd by (simp add: since_draw_def)
  have fl: "filter (\<lambda>e. fst e < next_id g1) (all h) =
      filter (\<lambda>e. fst e \<in> fst ` set (all h)) (all g1)"
    using sd by (simp add: since_draw_def)
  have one: "draw_sprite A (store h) e = [blit_sprite A (store h (fst e))]"
    if e: "e \<in> set (all h)" for e
  proof (cases "fst e < next_id g1")
    case True
    then have "e \<in> set (filter (\<lambda>e. fst e < next_id g1) (all h))" using e by simp
    then have in1: "e \<in> set (all g1)" unfolding fl by simp
    then have "fst e \<in> set (map fst (all g1)) \<inter> set (map fst (all g2))"
      using e by (auto simp: ids)
    then have "blit_sprite A (store h (fst e)) = blit_sprite A (store g1 (fst e))"
      using same by (intro blit_sprite_cong) (simp_all add: st)
    then have "snd e = Some (blit_sprite A (store h (fst e)))" using a1 in1 by simp
    then show ?thesis by (rule draw_sprite_same)
  next
    case False
    then have "snd e = None" using new e by auto
    then show ?thesis by (simp add: draw_sprite_def Let_def)
  qed
  have "concat (map (draw_sprite A (store h)) es) = map (\<lambda>e. blit_sprite A (store h (fst e))) es"
    if "set es \<subseteq> set (all h)" for es
    using that by (induction es) (simp_all add: one)
  then have d: "dirty g2 = L @ map (\<lambda>i. blit_sprite A (store g2 i)) (map fst (all g2))"
    by (simp add: g2 draw_dirty L(1) Ah comp_def)
  have Lr: "\<forall>r\<in>set L. \<exists>i. i \<in> set (map fst (all g1)) \<and> i \<notin> set (map fst (all g2))
      \<and> r = blit_sprite A (store g1 i)"
  proof
    fix r assume "r \<in> set L"
    then obtain i where i: "(i, Some r) \<in> set (all g1)" "i \<notin> fst ` set (all h)"
      using L(2) by blast
    have "Some r = Some (blit_sprite A (store g1 i))" using a1 i(1) by force
    moreover have "i \<in> set (map fst (all g1))" using i(1) by force
    moreover have "i \<notin> set (map fst (all g2))" using i(2) by (simp add: ids)
    ultimately show "\<exists>i. i \<in> set (map fst (all g1)) \<and> i \<notin> set (map fst (all g2))
      \<and> r = blit_sprite A (store g1 i)" by blast
  qed
  have Le: "L = []" if "set (map fst (all g1)) \<subseteq> set (map fst (all g2))"
  proof (cases L)
    case Nil
    then show ?thesis .
  next
    case (Cons r rs)
    then obtain i where "i \<in> set (map fst (all g1))" "i \<notin> set (map fst (all g2))"
      using Lr by auto
    then show ?thesis using that by blast
  qed
  have ne: "dirty g2 \<noteq> []" if "all g2 \<noteq> []"
    using that by (simp add: d)
  have "\<exists>L. dirty g2 =
          L @ map (\<lambda>i. blit A (image_of (store g2 i)) (rect (store g2 i))) (map fst (all g2))
        \<and> (\<forall>r\<in>set L. \<exists>i. i \<in> set (map fst (all g1)) \<and> i \<notin> set (map fst (all g2))
              \<and> r = blit A (image_of (store g1 i)) (rect (store g1 i)))
        \<and> (set (map fst (all g1)) \<subseteq> set (map fst (all g2)) \<longrightarrow> L = [])"
    using d Lr Le unfolding blit_sprite_def by blast
  then show "(\<exists>L. dirty (tick k' (tick k g)) =
          L @ map (\<lambda>i. blit (cfg g) (image_of (store (tick k' (tick k g)) i))
                       (rect (store (tick k' (tick k g)) i)))
                (map fst (all (tick k' (tick k g))))
        \<and> (\<forall>r\<in>set L. \<exists>i. i \<in> set (map fst (all (tick k g)))
              \<and> i \<notin> set (map fst (all (tick k' (tick k g))))
              \<and> r = blit (cfg g) (image_of (store (tick k g) i)) (rect (store (tick k g) i)))
        \<and> (set (map fst (all (tick k g))) \<subseteq> set (map fst (all (tick k' (tick k g))))
             \<longrightarrow> L = []))
      \<and> (all (tick k' (tick k g)) \<noteq> [] \<longrightarrow> dirty (tick k' (tick k g)) \<noteq> [])"
    using ne by (simp add: g1_def g2_def A_def)
qed

theorem dirty_of_unchanged_actors_witness:
  "wf g_still
   \<and> map fst (all (tick keys_idle g_still)) = [0, 1]
   \<and> map fst (all (tick keys_fire (tick keys_idle g_still))) = [0, 1, 2]
   \<and> rect (store (tick keys_fire (tick keys_idle g_still)) 0) =
       rect (store (tick keys_idle g_still) 0)
   \<and> image_of (store (tick keys_fire (tick keys_idle g_still)) 0) =
       image_of (store (tick keys_idle g_still) 0)
   \<and> rect (store (tick keys_fire (tick keys_idle g_still)) 1) =
       rect (store (tick keys_idle g_still) 1)
   \<and> image_of (store (tick keys_fire (tick keys_idle g_still)) 1) =
       image_of (store (tick keys_idle g_still) 1)
   \<and> dirty (tick keys_fire (tick keys_idle g_still)) =
       [Rect 300 450 40 30, Rect 10 450 60 14, Rect 329 440 4 10]"
proof -
  define g1 where "g1 = tick keys_idle g_still"
  define g2 where "g2 = tick keys_fire g1"
  have w: "wf g_still" by (simp add: wf_def g_still_def)
  have i1: "map fst (all g1) = [0, 1]" unfolding g1_def by code_simp
  have i2: "map fst (all g2) = [0, 1, 2]" unfolding g2_def g1_def by code_simp
  have s0: "rect (store g2 0) = rect (store g1 0)" "image_of (store g2 0) = image_of (store g1 0)"
    unfolding g2_def g1_def by code_simp+
  have s1: "rect (store g2 1) = rect (store g1 1)" "image_of (store g2 1) = image_of (store g1 1)"
    unfolding g2_def g1_def by code_simp+
  have r: "rect (store g2 0) = Rect 300 450 40 30" "rect (store g2 1) = Rect 10 450 60 14"
    "rect (store g2 2) = Rect 329 440 4 10"
    unfolding g2_def g1_def by code_simp+
  have b: "blit (cfg g_still) = (\<lambda>image r. r)" by (simp add: g_still_def example_assets_def)
  have "\<forall>i\<in>set (map fst (all g1)) \<inter> set (map fst (all g2)).
      rect (store g2 i) = rect (store g1 i) \<and> image_of (store g2 i) = image_of (store g1 i)"
    using s0 s1 by (simp add: i1 i2)
  then obtain L where L: "dirty g2 =
      L @ map (\<lambda>i. blit (cfg g_still) (image_of (store g2 i)) (rect (store g2 i)))
            (map fst (all g2))"
    "set (map fst (all g1)) \<subseteq> set (map fst (all g2)) \<longrightarrow> L = []"
    using dirty_of_unchanged_actors [of g_still keys_idle keys_fire] w
    unfolding Let_def g1_def [symmetric] g2_def [symmetric] by blast
  have "L = []" using L(2) by (simp add: i1 i2)
  then have "dirty g2 = [Rect 300 450 40 30, Rect 10 450 60 14, Rect 329 440 4 10]"
    using L(1) r by (simp add: i2 b)
  then show ?thesis
    using w i1 i2 s0 s1 by (simp add: g1_def g2_def)
qed

end
